theory Spec2Isabelle
  imports Main "HOL-Library.Word" "HOL-Library.Finite_Map"
begin

unbundle bit_operations_syntax

section \<open>Data model\<close>

text \<open>
  Go's \<^verbatim>\<open>[]byte\<close> is a list of 8-bit words (a nil slice and an empty slice are both
  \<open>[]\<close>; a slice's capacity is taken to equal its length), \<^verbatim>\<open>int64\<close> is a 64-bit
  word read as two's complement, \<^verbatim>\<open>*big.Int\<close> is an unbounded integer, and a
  \<^verbatim>\<open>time.Time\<close> is a reading of the process's monotonic clock in nanoseconds.
  A Go \<^verbatim>\<open>map\<close> is a finite map.
\<close>

type_synonym byte = "8 word"
type_synonym bytes = "byte list"
type_synonym int64 = "64 word"
type_synonym time = int

text \<open>
  Every \<^verbatim>\<open>errors.New\<close> of the package is one constructor; \<open>ErrDecrypt\<close> wraps the cause
  as \<^verbatim>\<open>fmt.Errorf("...: %v", err)\<close> does; \<open>ErrKeySize\<close> and \<open>ErrRand\<close> are the errors
  that \<^verbatim>\<open>aes.NewCipher\<close> and \<^verbatim>\<open>rand.Int\<close> return. \<open>Panic\<close> is a Go run-time panic and
  \<open>Fatal\<close> is \<^verbatim>\<open>log.Fatal\<close>.
\<close>

datatype error =
    ErrTimestamp
  | ErrReplay
  | ErrHMAC
  | ErrECDSA
  | ErrRSA
  | ErrDecrypt error
  | ErrConcurrency
  | ErrRateLimit
  | ErrEmptyData
  | ErrBadPadding
  | ErrKeySize
  | ErrRand
  | Panic
  | Fatal

datatype pubkey = ECDSAPublicKey int int | RSAPublicKey int int | OtherPublicKey

record ecdsa_PrivateKey =
  ecX :: int
  ecY :: int
  ecD :: int

record rsa_PrivateKey =
  rsaN :: int
  rsaE :: int
  rsaD :: int

text \<open>
  The primitives of the Go standard library that the package calls. They are outside the
  repository, so the model takes them as a parameter: the AES block permutation under a
  key, HMAC-SHA256, the two hash functions (a Go \<^verbatim>\<open>[32]byte\<close> or \<^verbatim>\<open>[64]byte\<close> array is
  a 256-bit or 512-bit word), ECDSA and RSA PKCS#1 v1.5 signing and verification, the
  X.509 and JSON codecs, and the curve's scalar multiplication. A signature is the pair
  of \<^verbatim>\<open>*big.Int\<close> fields \<open>R\<close> and \<open>S\<close>: \<^verbatim>\<open>json.Unmarshal\<close> accepts input that leaves either of
  them nil (\<open>None\<close>), and \<^verbatim>\<open>ecdsa.Verify\<close> panics (\<open>None\<close>) when it dereferences a nil one.
  \<^verbatim>\<open>curve_IsOnCurve\<close> says that a point is on the curve of the private keys;
  \<^verbatim>\<open>ScalarMult\<close> panics on a point that is not.
\<close>

record prims =
  aes_encrypt_block :: "bytes \<Rightarrow> bytes \<Rightarrow> bytes"
  aes_decrypt_block :: "bytes \<Rightarrow> bytes \<Rightarrow> bytes"
  hmac_sha256 :: "bytes \<Rightarrow> bytes \<Rightarrow> bytes"
  sha256_Sum256 :: "bytes \<Rightarrow> 256 word"
  sha512_Sum512 :: "bytes \<Rightarrow> 512 word"
  ecdsa_Sign :: "bytes \<Rightarrow> ecdsa_PrivateKey \<Rightarrow> bytes \<Rightarrow> (int \<times> int) option"
  ecdsa_Verify :: "int \<times> int \<Rightarrow> bytes \<Rightarrow> int option \<times> int option \<Rightarrow> bool option"
  rsa_SignPKCS1v15 :: "rsa_PrivateKey \<Rightarrow> bytes \<Rightarrow> bytes option"
  rsa_VerifyPKCS1v15 :: "int \<times> int \<Rightarrow> bytes \<Rightarrow> bytes \<Rightarrow> bool"
  x509_ParsePKIXPublicKey :: "bytes \<Rightarrow> pubkey option"
  x509_MarshalPKIXPublicKey :: "pubkey \<Rightarrow> bytes"
  json_Marshal :: "int \<times> int \<Rightarrow> bytes option"
  json_Unmarshal :: "bytes \<Rightarrow> (int option \<times> int option) option"
  curve_IsOnCurve :: "int \<times> int \<Rightarrow> bool"
  curve_ScalarMult :: "int \<times> int \<Rightarrow> bytes \<Rightarrow> int \<times> int"
  curve_ScalarBaseMult :: "bytes \<Rightarrow> int \<times> int"

text \<open>\<open>h[:]\<close> of a hash array: its bytes, most significant first.\<close>

definition array_bytes :: "nat \<Rightarrow> 'a::len word \<Rightarrow> bytes" where
  "array_bytes n w = map (\<lambda>i. ucast (drop_bit (8 * (n - 1 - i)) w)) [0..<n]"

text \<open>\<^verbatim>\<open>(*big.Int).Bytes\<close>: the absolute value, big-endian, with no leading zero.\<close>

function nat_Bytes :: "nat \<Rightarrow> bytes" where
  "nat_Bytes n = (if n = 0 then [] else nat_Bytes (n div 256) @ [of_nat (n mod 256)])"
  by pat_completeness auto
termination
  by (relation "measure id") auto

declare nat_Bytes.simps [simp del]

definition big_Bytes :: "int \<Rightarrow> bytes" where
  "big_Bytes x = nat_Bytes (nat \<bar>x\<bar>)"

section \<open>Admission control\<close>

definition maxConcurrentOps :: int64 where
  "maxConcurrentOps = 100"

definition Millisecond :: time where
  "Millisecond = 1000000"

definition Minute :: time where
  "Minute = 60000000000"

definition minOpInterval :: time where
  "minOpInterval = 10 * Millisecond"

text \<open>
  \<^verbatim>\<open>RateLimitCheck\<close>: \<open>now\<close> is the reading of \<^verbatim>\<open>time.Now()\<close>. \<^verbatim>\<open>Time.Sub\<close> saturates
  and never wraps, so comparing its result with 10 ms is comparing the difference of the
  readings. The \<^verbatim>\<open>range\<close> loop that deletes the entries before the cutoff is a filter of
  the map.
\<close>

definition evict_before :: "time \<Rightarrow> ('k, time) fmap \<Rightarrow> ('k, time) fmap" where
  "evict_before cutoff m =
     fmfilter (\<lambda>k. case fmlookup m k of None \<Rightarrow> False | Some ts \<Rightarrow> \<not> ts < cutoff) m"

definition RateLimitCheck ::
  "(string, time) fmap \<Rightarrow> string \<Rightarrow> time \<Rightarrow> (error + unit) \<times> (string, time) fmap" where
  "RateLimitCheck rateLimitMap clientID now =
     (case fmlookup rateLimitMap clientID of
        Some lastOp \<Rightarrow>
          if now - lastOp < minOpInterval then (Inl ErrRateLimit, rateLimitMap)
          else (Inr (), evict_before (now - Minute) (fmupd clientID now rateLimitMap))
      | None \<Rightarrow> (Inr (), evict_before (now - Minute) (fmupd clientID now rateLimitMap)))"

text \<open>
  The two atomic operations on the shared counter, and \<^verbatim>\<open>ConcurrencyCheck\<close> and
  \<^verbatim>\<open>ConcurrencyRelease\<close> as one caller runs them with nobody in between.
\<close>

definition atomic_LoadInt64 :: "int64 \<Rightarrow> int64" where
  "atomic_LoadInt64 ops = ops"

definition atomic_AddInt64 :: "int64 \<Rightarrow> int64 \<Rightarrow> int64" where
  "atomic_AddInt64 ops delta = ops + delta"

definition ConcurrencyCheck :: "int64 \<Rightarrow> (error + unit) \<times> int64" where
  "ConcurrencyCheck ops =
     (let current = atomic_LoadInt64 ops in
      if maxConcurrentOps \<le>s current then (Inl ErrConcurrency, ops)
      else (Inr (), atomic_AddInt64 ops 1))"

definition ConcurrencyRelease :: "int64 \<Rightarrow> int64" where
  "ConcurrencyRelease ops = atomic_AddInt64 ops (- 1)"

definition GetConcurrentOpsCount :: "int64 \<Rightarrow> int64" where
  "GetConcurrentOpsCount ops = atomic_LoadInt64 ops"

section \<open>Padding and AES-CBC\<close>

abbreviation BlockSize :: nat where
  "BlockSize \<equiv> 16"

definition PKCS7Pad :: "bytes \<Rightarrow> bytes" where
  "PKCS7Pad data =
     (let pad = BlockSize - length data mod BlockSize
      in data @ replicate pad (of_nat pad))"

text \<open>The loop of \<^verbatim>\<open>PKCS7Unpad\<close> over the last \<open>pad\<close> bytes.\<close>

fun padding_bytes_ok :: "bytes \<Rightarrow> byte \<Rightarrow> bool" where
  "padding_bytes_ok [] p = True"
| "padding_bytes_ok (b # bs) p = (if b \<noteq> p then False else padding_bytes_ok bs p)"

text \<open>
  When \<open>pad\<close> is larger than the data, the loop starts at a negative index and the first
  read panics.
\<close>

definition PKCS7Unpad :: "bytes \<Rightarrow> error + bytes" where
  "PKCS7Unpad data =
     (if length data = 0 then Inl ErrEmptyData
      else
        let pad = unat (last data) in
        if pad > BlockSize \<or> pad = 0 then Inl ErrBadPadding
        else if length data < pad then Inl Panic
        else if \<not> padding_bytes_ok (drop (length data - pad) data) (of_nat pad)
          then Inl ErrBadPadding
        else Inr (take (length data - pad) data))"

definition xor_bytes :: "bytes \<Rightarrow> bytes \<Rightarrow> bytes" where
  "xor_bytes a b = map2 (XOR) a b"

text \<open>
  \<^verbatim>\<open>cipher.NewCBCEncrypter(block, iv).CryptBlocks\<close> and its inverse, over the block
  permutation \<open>E\<close> (or \<open>D\<close>) of the keyed cipher; the source is a whole number of blocks
  when they are called.
\<close>

function CBCEncrypt :: "(bytes \<Rightarrow> bytes) \<Rightarrow> bytes \<Rightarrow> bytes \<Rightarrow> bytes" where
  "CBCEncrypt E iv src =
     (if src = [] then []
      else let c = E (xor_bytes (take BlockSize src) iv)
           in c @ CBCEncrypt E c (drop BlockSize src))"
  by pat_completeness auto
termination
  by (relation "measure (\<lambda>(E, iv, src). length src)") auto

function CBCDecrypt :: "(bytes \<Rightarrow> bytes) \<Rightarrow> bytes \<Rightarrow> bytes \<Rightarrow> bytes" where
  "CBCDecrypt D iv src =
     (if src = [] then []
      else let c = take BlockSize src
           in xor_bytes (D c) iv @ CBCDecrypt D c (drop BlockSize src))"
  by pat_completeness auto
termination
  by (relation "measure (\<lambda>(D, iv, src). length src)") auto

declare CBCEncrypt.simps [simp del]
declare CBCDecrypt.simps [simp del]

text \<open>\<^verbatim>\<open>aes.NewCipher\<close> accepts keys of 16, 24 or 32 bytes.\<close>

definition NewCipher_ok :: "bytes \<Rightarrow> bool" where
  "NewCipher_ok key \<longleftrightarrow> length key = 16 \<or> length key = 24 \<or> length key = 32"

text \<open>
  \<^verbatim>\<open>AESEncrypt\<close> and \<^verbatim>\<open>AESDecrypt\<close> with the concurrency guard; the argument \<open>ops\<close> is the
  shared counter when the call starts and the second component of the result is the
  counter when it returns (the deferred release has run, also on a panic). When the guard
  refuses, \<^verbatim>\<open>AESEncrypt\<close> sleeps for 50 ms and returns the nil slice, and \<^verbatim>\<open>AESDecrypt\<close>
  returns the error. \<^verbatim>\<open>aes.NewCipher\<close> fails on a key of another size, the CBC
  constructors panic on an IV that is not one block, and \<^verbatim>\<open>CryptBlocks\<close> panics on an
  input that is not a whole number of blocks. The statistics sink only stores the
  measured durations and is left out.
\<close>

definition AESEncrypt ::
  "prims \<Rightarrow> bytes \<Rightarrow> bytes \<Rightarrow> bytes \<Rightarrow> int64 \<Rightarrow> (error + bytes) \<times> int64" where
  "AESEncrypt P key iv plaintext ops =
     (case ConcurrencyCheck ops of
        (Inl err, ops') \<Rightarrow> (Inr [], ops')
      | (Inr u, ops') \<Rightarrow>
          (if \<not> NewCipher_ok key then Inl Panic
           else if length iv \<noteq> BlockSize then Inl Panic
           else Inr (CBCEncrypt (aes_encrypt_block P key) iv (PKCS7Pad plaintext)),
           ConcurrencyRelease ops'))"

definition AESDecrypt ::
  "prims \<Rightarrow> bytes \<Rightarrow> bytes \<Rightarrow> bytes \<Rightarrow> int64 \<Rightarrow> (error + bytes) \<times> int64" where
  "AESDecrypt P key iv ciphertext ops =
     (case ConcurrencyCheck ops of
        (Inl err, ops') \<Rightarrow> (Inl err, ops')
      | (Inr u, ops') \<Rightarrow>
          (if \<not> NewCipher_ok key then Inl ErrKeySize
           else if length iv \<noteq> BlockSize then Inl Panic
           else if length ciphertext mod BlockSize \<noteq> 0 then Inl Panic
           else PKCS7Unpad (CBCDecrypt (aes_decrypt_block P key) iv ciphertext),
           ConcurrencyRelease ops'))"

text \<open>
  Concurrent callers. Each caller of \<^verbatim>\<open>AESEncrypt\<close> or \<^verbatim>\<open>AESDecrypt\<close> is a thread that
  runs \<^verbatim>\<open>ConcurrencyCheck\<close> as its two atomic operations (the load, then the comparison
  and the add), does its cipher work while \<open>Running\<close>, and runs the deferred
  \<^verbatim>\<open>ConcurrencyRelease\<close> when it returns. A schedule is the list of thread indices in the
  order in which they take their next step.
\<close>

datatype pc = Start | Loaded int64 | Running | Returned

definition thread_step :: "int64 \<times> pc list \<Rightarrow> nat \<Rightarrow> int64 \<times> pc list" where
  "thread_step st i =
     (case st of (ops, pcs) \<Rightarrow>
        if length pcs \<le> i then (ops, pcs)
        else case pcs ! i of
          Start \<Rightarrow> (ops, pcs[i := Loaded (atomic_LoadInt64 ops)])
        | Loaded current \<Rightarrow>
            if maxConcurrentOps \<le>s current then (ops, pcs[i := Returned])
            else (atomic_AddInt64 ops 1, pcs[i := Running])
        | Running \<Rightarrow> (ConcurrencyRelease ops, pcs[i := Returned])
        | Returned \<Rightarrow> (ops, pcs))"

definition run_schedule :: "int64 \<times> pc list \<Rightarrow> nat list \<Rightarrow> int64 \<times> pc list" where
  "run_schedule st sched = foldl thread_step st sched"

text \<open>
  A sequence of \<^verbatim>\<open>RateLimitCheck\<close> calls, each with its client and its clock reading,
  and the list of their results.
\<close>

fun RateLimit_run ::
  "(string, time) fmap \<Rightarrow> (string \<times> time) list \<Rightarrow> (error + unit) list" where
  "RateLimit_run m [] = []"
| "RateLimit_run m ((clientID, now) # calls) =
     (case RateLimitCheck m clientID now of (r, m') \<Rightarrow> r # RateLimit_run m' calls)"

text \<open>
  The specification's \<open>checkRate\<close>, in its own words: a call is rejected when less than
  the minimum interval has elapsed since that client's last accepted operation, and an
  accepted call becomes the client's last accepted operation. \<open>la\<close> maps each client to
  the time of its last accepted operation; nothing is ever forgotten.
\<close>

fun spec_checkRate_run ::
  "(string \<Rightarrow> time option) \<Rightarrow> (string \<times> time) list \<Rightarrow> (error + unit) list" where
  "spec_checkRate_run la [] = []"
| "spec_checkRate_run la ((clientID, now) # calls) =
     (if (case la clientID of None \<Rightarrow> False | Some t \<Rightarrow> now - t < minOpInterval)
      then Inl ErrRateLimit # spec_checkRate_run la calls
      else Inr () # spec_checkRate_run (la(clientID \<mapsto> now)) calls)"

section \<open>Nonce tracker\<close>

record NonceTracker =
  nonces :: "(bytes, time) fmap"
  maxSize :: int
  cleanupInterval :: time

definition MaxNonceStorage :: int where
  "MaxNonceStorage = 10000"

definition NonceCleanupInterval :: time where
  "NonceCleanupInterval = 5 * Minute"

definition NewNonceTracker :: "int \<Rightarrow> time \<Rightarrow> NonceTracker" where
  "NewNonceTracker maxSz interval =
     \<lparr>nonces = fmempty, maxSize = maxSz, cleanupInterval = interval\<rparr>"

definition globalNonceTracker :: NonceTracker where
  "globalNonceTracker = NewNonceTracker MaxNonceStorage NonceCleanupInterval"

definition cleanupOldNonces :: "NonceTracker \<Rightarrow> time \<Rightarrow> NonceTracker" where
  "cleanupOldNonces nt now =
     nt\<lparr>nonces := evict_before (now - cleanupInterval nt) (nonces nt)\<rparr>"

text \<open>
  \<^verbatim>\<open>AddNonce\<close>, as one critical section: \<open>tsweep\<close> is the clock reading taken by the
  sweep, \<open>tins\<close> the one stored with the nonce.
\<close>

definition AddNonce ::
  "NonceTracker \<Rightarrow> bytes \<Rightarrow> time \<Rightarrow> time \<Rightarrow> (error + unit) \<times> NonceTracker" where
  "AddNonce nt nonce tsweep tins =
     (if nonce |\<in>| fmdom (nonces nt) then (Inl ErrReplay, nt)
      else
        let nt' = (if maxSize nt \<le> int (fcard (fmdom (nonces nt)))
                   then cleanupOldNonces nt tsweep else nt)
        in (Inr (), nt'\<lparr>nonces := fmupd nonce tins (nonces nt')\<rparr>))"

definition GetCount :: "NonceTracker \<Rightarrow> int" where
  "GetCount nt = int (fcard (fmdom (nonces nt)))"

definition Reset :: "NonceTracker \<Rightarrow> NonceTracker" where
  "Reset nt = nt\<lparr>nonces := fmempty\<rparr>"

section \<open>Signatures and MAC\<close>

definition GenerateHMAC :: "prims \<Rightarrow> bytes \<Rightarrow> bytes \<Rightarrow> bytes" where
  "GenerateHMAC P key data = hmac_sha256 P key data"

text \<open>
  \<^verbatim>\<open>subtle.ConstantTimeCompare\<close> is 1 exactly when the two slices are equal. The timing
  measurements that one variant of \<^verbatim>\<open>VerifyHMAC\<close> stores are left out.
\<close>

definition VerifyHMAC :: "prims \<Rightarrow> bytes \<Rightarrow> bytes \<Rightarrow> bytes \<Rightarrow> bool" where
  "VerifyHMAC P key data mac \<longleftrightarrow> mac = GenerateHMAC P key data"

definition SignECDSA :: "prims \<Rightarrow> ecdsa_PrivateKey \<Rightarrow> bytes \<Rightarrow> bytes \<Rightarrow> error + bytes" where
  "SignECDSA P priv data rnd =
     (case ecdsa_Sign P rnd priv (array_bytes 64 (sha512_Sum512 P data)) of
        None \<Rightarrow> Inl Fatal
      | Some signature \<Rightarrow>
          (case json_Marshal P signature of
             None \<Rightarrow> Inl Fatal
           | Some signatureBytes \<Rightarrow> Inr signatureBytes))"

text \<open>
  \<^verbatim>\<open>VerifyECDSA\<close> returns false for a key that does not parse or is not an ECDSA key and
  for a signature that does not unmarshal; a signature that unmarshals with a nil \<open>R\<close> or
  \<open>S\<close> reaches \<^verbatim>\<open>ecdsa.Verify\<close>, whose panic is the \<open>Inl\<close> result.
\<close>

definition VerifyECDSA :: "prims \<Rightarrow> bytes \<Rightarrow> bytes \<Rightarrow> bytes \<Rightarrow> error + bool" where
  "VerifyECDSA P pubBytes data sig =
     (case x509_ParsePKIXPublicKey P pubBytes of
        None \<Rightarrow> Inr False
      | Some (ECDSAPublicKey x y) \<Rightarrow>
          (case json_Unmarshal P sig of
             None \<Rightarrow> Inr False
           | Some signature \<Rightarrow>
               (case ecdsa_Verify P (x, y) (array_bytes 64 (sha512_Sum512 P data)) signature of
                  None \<Rightarrow> Inl Panic
                | Some valid \<Rightarrow> Inr valid))
      | Some other \<Rightarrow> Inr False)"

definition SignRSA :: "prims \<Rightarrow> rsa_PrivateKey \<Rightarrow> bytes \<Rightarrow> error + bytes" where
  "SignRSA P priv data =
     (case rsa_SignPKCS1v15 P priv (array_bytes 32 (sha256_Sum256 P data)) of
        None \<Rightarrow> Inl Fatal
      | Some signature \<Rightarrow> Inr signature)"

definition VerifyRSA :: "prims \<Rightarrow> bytes \<Rightarrow> bytes \<Rightarrow> bytes \<Rightarrow> bool" where
  "VerifyRSA P pubBytes data sig =
     (case x509_ParsePKIXPublicKey P pubBytes of
        None \<Rightarrow> False
      | Some (RSAPublicKey n e) \<Rightarrow>
          rsa_VerifyPKCS1v15 P (n, e) (array_bytes 32 (sha256_Sum256 P data)) sig
      | Some other \<Rightarrow> False)"

text \<open>
  Key generation: the standard library draws the private scalar (here the argument) and
  sets the public key to the scalar multiple of the base point, or to the RSA modulus and
  public exponent; the package marshals the public key. A failure of the library's
  generator ends the process and is not a result.
\<close>

definition GenerateECDHKeys :: "prims \<Rightarrow> int \<Rightarrow> ecdsa_PrivateKey \<times> bytes" where
  "GenerateECDHKeys P d =
     (case curve_ScalarBaseMult P (big_Bytes d) of (x, y) \<Rightarrow>
        (\<lparr>ecX = x, ecY = y, ecD = d\<rparr>, x509_MarshalPKIXPublicKey P (ECDSAPublicKey x y)))"

definition GenerateRSAKeys :: "prims \<Rightarrow> rsa_PrivateKey \<Rightarrow> rsa_PrivateKey \<times> bytes" where
  "GenerateRSAKeys P priv =
     (priv, x509_MarshalPKIXPublicKey P (RSAPublicKey (rsaN priv) (rsaE priv)))"

section \<open>Secure message codec\<close>

definition AESKeySize :: nat where
  "AESKeySize = 32"

definition HMACKeySize :: nat where
  "HMACKeySize = 32"

definition NonceSize :: nat where
  "NonceSize = 16"

definition MaxTimeDifference :: int64 where
  "MaxTimeDifference = 30"

record Message =
  Timestamp :: int64
  Nonce :: bytes
  IV :: bytes
  Cipher :: bytes
  HMAC :: bytes
  Signature :: bytes
  PubKey :: bytes
  RSASig :: bytes

text \<open>
  \<^verbatim>\<open>CreateSecureMessage\<close>. The random IV and nonce, the randomness of the ECDSA
  signature and the clock reading \<^verbatim>\<open>time.Now().Unix()\<close> are arguments; \<open>ops\<close> is the
  sender's concurrency counter. Slicing a secret shorter than 32 bytes panics.
\<close>

definition CreateSecureMessage ::
  "prims \<Rightarrow> bytes \<Rightarrow> bytes \<Rightarrow> ecdsa_PrivateKey \<Rightarrow> bytes \<Rightarrow> rsa_PrivateKey
   \<Rightarrow> bytes \<Rightarrow> bytes \<Rightarrow> bytes \<Rightarrow> int64 \<Rightarrow> int64 \<Rightarrow> (error + Message) \<times> int64" where
  "CreateSecureMessage P plaintext sharedSecret ecdsaPriv ecdhPub rsaPriv iv nonce rnd timestamp ops =
     (if length sharedSecret < AESKeySize then (Inl Panic, ops)
      else
        case AESEncrypt P (take AESKeySize sharedSecret) iv plaintext ops of
          (Inl err, ops') \<Rightarrow> (Inl err, ops')
        | (Inr ciphertext, ops') \<Rightarrow>
            let hmacValue = GenerateHMAC P (drop AESKeySize sharedSecret) ciphertext in
            (case SignECDSA P ecdsaPriv ciphertext rnd of
               Inl err \<Rightarrow> (Inl err, ops')
             | Inr ecdsaSig \<Rightarrow>
                 (case SignRSA P rsaPriv ciphertext of
                    Inl err \<Rightarrow> (Inl err, ops')
                  | Inr rsaSig \<Rightarrow>
                      (Inr \<lparr>Timestamp = timestamp, Nonce = nonce, IV = iv,
                            Cipher = ciphertext, HMAC = hmacValue, Signature = ecdsaSig,
                            PubKey = ecdhPub, RSASig = rsaSig\<rparr>, ops'))))"

text \<open>The freshness test of the receive path, on 64-bit integers.\<close>

definition timestamp_out_of_range :: "int64 \<Rightarrow> int64 \<Rightarrow> bool" where
  "timestamp_out_of_range now ts \<longleftrightarrow>
     MaxTimeDifference <s now - ts \<or> now <s ts - MaxTimeDifference"

text \<open>
  The receiver's shared state: the global nonce tracker and the concurrency counter.
  The field \<open>ran\<close> is not in the program: it is the record of the checks of the receive
  path that were executed, in order, each with its outcome, so that a statement about
  which checks run can be made.
\<close>

datatype check =
  CheckFreshness | CheckReplay | CheckMAC | CheckECDSA | CheckRSA | CheckDecrypt

record receiver =
  tracker :: NonceTracker
  concurrentOps :: int64
  ran :: "(check \<times> bool) list"

definition record_check :: "check \<Rightarrow> bool \<Rightarrow> receiver \<Rightarrow> receiver" where
  "record_check c ok s = s\<lparr>ran := ran s @ [(c, ok)]\<rparr>"

text \<open>
  \<^verbatim>\<open>VerifyAndDecryptMessage\<close>. \<open>now\<close> is \<^verbatim>\<open>time.Now().Unix()\<close>; \<open>tsweep\<close> and \<open>tins\<close> are
  the clock readings of the tracker. A panic inside \<^verbatim>\<open>VerifyECDSA\<close> or \<^verbatim>\<open>AESDecrypt\<close>
  ends the call and is not wrapped; the check it happened in is recorded as not passed.
  The statistics pointer is taken to be non-nil, as every caller passes it.
\<close>

definition VerifyAndDecryptMessage ::
  "prims \<Rightarrow> int64 \<Rightarrow> time \<Rightarrow> time \<Rightarrow> Message \<Rightarrow> bytes \<Rightarrow> bytes \<Rightarrow> receiver
   \<Rightarrow> (error + bytes) \<times> receiver" where
  "VerifyAndDecryptMessage P now tsweep tins msg sharedSecret rsaPubKey s =
     (if timestamp_out_of_range now (Timestamp msg)
      then (Inl ErrTimestamp, record_check CheckFreshness False s)
      else
        let s1 = record_check CheckFreshness True s in
        case AddNonce (tracker s1) (Nonce msg) tsweep tins of
          (Inl err, nt) \<Rightarrow> (Inl err, record_check CheckReplay False (s1\<lparr>tracker := nt\<rparr>))
        | (Inr u, nt) \<Rightarrow>
            let s2 = record_check CheckReplay True (s1\<lparr>tracker := nt\<rparr>) in
            if length sharedSecret < AESKeySize then (Inl Panic, s2)
            else if \<not> VerifyHMAC P (drop AESKeySize sharedSecret) (Cipher msg) (HMAC msg)
              then (Inl ErrHMAC, record_check CheckMAC False s2)
            else
              let s3 = record_check CheckMAC True s2 in
              case VerifyECDSA P (PubKey msg) (Cipher msg) (Signature msg) of
                Inl err \<Rightarrow> (Inl err, record_check CheckECDSA False s3)
              | Inr valid \<Rightarrow>
                  if \<not> valid then (Inl ErrECDSA, record_check CheckECDSA False s3)
                  else
                    let s4 = record_check CheckECDSA True s3 in
                    if \<not> VerifyRSA P rsaPubKey (Cipher msg) (RSASig msg)
                      then (Inl ErrRSA, record_check CheckRSA False s4)
                    else
                      let s5 = record_check CheckRSA True s4 in
                      case AESDecrypt P (take AESKeySize sharedSecret) (IV msg) (Cipher msg)
                             (concurrentOps s5) of
                        (Inl err, ops) \<Rightarrow>
                          (Inl (if err = Panic then Panic else ErrDecrypt err),
                           record_check CheckDecrypt False (s5\<lparr>concurrentOps := ops\<rparr>))
                      | (Inr plaintext, ops) \<Rightarrow>
                          (Inr plaintext,
                           record_check CheckDecrypt True (s5\<lparr>concurrentOps := ops\<rparr>)))"

section \<open>Key agreement\<close>

text \<open>
  \<^verbatim>\<open>ComputeSharedSecret\<close>: a key that does not parse, or is not an ECDSA key, panics, and
  so does \<^verbatim>\<open>ScalarMult\<close> on a peer point that is not on the private key's curve (a key of
  another curve). The result is the 32 bytes of the SHA-256 array.
\<close>

definition ComputeSharedSecret :: "prims \<Rightarrow> ecdsa_PrivateKey \<Rightarrow> bytes \<Rightarrow> error + bytes" where
  "ComputeSharedSecret P priv peerPubBytes =
     (case x509_ParsePKIXPublicKey P peerPubBytes of
        None \<Rightarrow> Inl Panic
      | Some (ECDSAPublicKey px py) \<Rightarrow>
          if \<not> curve_IsOnCurve P (px, py) then Inl Panic
          else
            (case curve_ScalarMult P (px, py) (big_Bytes (ecD priv)) of (x, y) \<Rightarrow>
               Inr (array_bytes 32 (sha256_Sum256 P (big_Bytes x))))
      | Some other \<Rightarrow> Inl Panic)"

record DHParams =
  dhP :: int
  dhG :: int

record DHKeyPair =
  Private :: int
  Public :: int
  Params :: DHParams

text \<open>
  \<^verbatim>\<open>(*big.Int).Exp(x, y, m)\<close>: \<open>x ^ y mod |m|\<close> for a modulus other than 0 and an
  exponent that is not negative; with modulus 0 it is \<open>x ^ y\<close>, or 1 when \<open>y \<le> 0\<close>. For a
  negative exponent and a modulus other than 0 the library inverts \<open>x\<close> and may return
  nil (\<open>None\<close>); that result is the parameter \<open>negexp\<close>.
\<close>

definition big_Exp :: "(int \<Rightarrow> int \<Rightarrow> int \<Rightarrow> int option) \<Rightarrow> int \<Rightarrow> int \<Rightarrow> int \<Rightarrow> int option" where
  "big_Exp negexp x y m =
     (if m = 0 then Some (if y \<le> 0 then 1 else x ^ nat y)
      else if y < 0 then negexp x y m
      else Some (x ^ nat y mod \<bar>m\<bar>))"

text \<open>
  \<^verbatim>\<open>GenerateDHKeyPair\<close>: \<open>draw\<close> is what \<^verbatim>\<open>rand.Int\<close> returns, a value of \<open>[0, P - 1)\<close> or
  \<open>None\<close> for an error of the random source; \<^verbatim>\<open>rand.Int\<close> panics when \<open>P - 1 \<le> 0\<close>. A nil
  result of \<^verbatim>\<open>Exp\<close> is stored as it is; the model ends there with a panic, since every
  use of the key dereferences it.
\<close>

definition GenerateDHKeyPair ::
  "(int \<Rightarrow> int \<Rightarrow> int \<Rightarrow> int option) \<Rightarrow> DHParams \<Rightarrow> int option \<Rightarrow> error + DHKeyPair" where
  "GenerateDHKeyPair negexp params draw =
     (if dhP params - 1 \<le> 0 then Inl Panic
      else
        case draw of
          None \<Rightarrow> Inl ErrRand
        | Some r \<Rightarrow>
            let private = r + 1 in
            (case big_Exp negexp (dhG params) private (dhP params) of
               None \<Rightarrow> Inl Panic
             | Some public \<Rightarrow>
                 Inr \<lparr>Private = private, Public = public, Params = params\<rparr>))"

text \<open>\<^verbatim>\<open>ComputeDHSharedSecret\<close>: calling \<^verbatim>\<open>Bytes\<close> on a nil result panics.\<close>

definition ComputeDHSharedSecret ::
  "prims \<Rightarrow> (int \<Rightarrow> int \<Rightarrow> int \<Rightarrow> int option) \<Rightarrow> int \<Rightarrow> int \<Rightarrow> DHParams \<Rightarrow> error + bytes" where
  "ComputeDHSharedSecret P negexp privateKey peerPublicKey params =
     (case big_Exp negexp peerPublicKey privateKey (dhP params) of
        None \<Rightarrow> Inl Panic
      | Some sharedSecret \<Rightarrow> Inr (array_bytes 32 (sha256_Sum256 P (big_Bytes sharedSecret))))"

section \<open>A small instance of the primitives\<close>

text \<open>
  A toy instance of the standard-library primitives, used only to evaluate the model at
  concrete inputs: the block permutation reverses the block, the MAC is the key followed
  by the data, a hash is the big-endian value of its input, a signature names the signer's public
  value, keys are marshalled in three bytes and signatures in two (the four bytes of
  \<^verbatim>\<open>null\<close> unmarshal to a signature with both fields nil, on which verification panics),
  and the curve is the integers under multiplication by the scalar.
\<close>

fun bytes_val :: "bytes \<Rightarrow> int" where
  "bytes_val [] = 0"
| "bytes_val (b # bs) = uint b * 256 ^ length bs + bytes_val bs"

definition toy_parse :: "bytes \<Rightarrow> pubkey option" where
  "toy_parse b =
     (case b of
        [t, x, y] \<Rightarrow>
          if t = 1 then Some (ECDSAPublicKey (uint x) (uint y))
          else if t = 2 then Some (RSAPublicKey (uint x) (uint y))
          else Some OtherPublicKey
      | _ \<Rightarrow> None)"

definition toy_marshal :: "pubkey \<Rightarrow> bytes" where
  "toy_marshal k =
     (case k of
        ECDSAPublicKey x y \<Rightarrow> [1, word_of_int x, word_of_int y]
      | RSAPublicKey n e \<Rightarrow> [2, word_of_int n, word_of_int e]
      | OtherPublicKey \<Rightarrow> [3, 0, 0])"

definition toy_json_Marshal :: "int \<times> int \<Rightarrow> bytes option" where
  "toy_json_Marshal sg =
     (case sg of (r, s) \<Rightarrow>
        if 0 \<le> r \<and> r < 256 \<and> 0 \<le> s \<and> s < 256 then Some [word_of_int r, word_of_int s]
        else None)"

definition toy_json_Unmarshal :: "bytes \<Rightarrow> (int option \<times> int option) option" where
  "toy_json_Unmarshal b =
     (if b = [110, 117, 108, 108] then Some (None, None)
      else case b of [r, s] \<Rightarrow> Some (Some (uint r), Some (uint s)) | _ \<Rightarrow> None)"

definition toy_ecdsa_Verify :: "int \<times> int \<Rightarrow> bytes \<Rightarrow> int option \<times> int option \<Rightarrow> bool option" where
  "toy_ecdsa_Verify pub h sg =
     (case sg of
        (Some r, Some s) \<Rightarrow> Some ((r, s) = (fst pub mod 256, 1))
      | _ \<Rightarrow> None)"

definition toy_prims :: prims where
  "toy_prims =
     \<lparr>aes_encrypt_block = (\<lambda>key b. rev b),
      aes_decrypt_block = (\<lambda>key b. rev b),
      hmac_sha256 = (\<lambda>key data. key @ data),
      sha256_Sum256 = (\<lambda>data. word_of_int (bytes_val data)),
      sha512_Sum512 = (\<lambda>data. word_of_int (bytes_val data)),
      ecdsa_Sign = (\<lambda>rnd priv h. Some (ecX priv mod 256, 1)),
      ecdsa_Verify = toy_ecdsa_Verify,
      rsa_SignPKCS1v15 = (\<lambda>priv h. Some (h @ [word_of_int (rsaN priv)])),
      rsa_VerifyPKCS1v15 = (\<lambda>pub h sg. sg = h @ [word_of_int (fst pub)]),
      x509_ParsePKIXPublicKey = toy_parse,
      x509_MarshalPKIXPublicKey = toy_marshal,
      json_Marshal = toy_json_Marshal,
      json_Unmarshal = toy_json_Unmarshal,
      curve_IsOnCurve = (\<lambda>pt. snd pt = 0),
      curve_ScalarMult = (\<lambda>pt k. (fst pt * bytes_val k, 0)),
      curve_ScalarBaseMult = (\<lambda>k. (bytes_val k, 0))\<rparr>"

text \<open>Concrete keys, a secret, a receiver with the empty global tracker, and the envelope
  that \<^verbatim>\<open>CreateSecureMessage\<close> builds from them for the plaintext \<open>[1, 2, 3]\<close>.\<close>

definition toy_ecdsa_key :: ecdsa_PrivateKey where
  "toy_ecdsa_key = \<lparr>ecX = 7, ecY = 0, ecD = 7\<rparr>"

definition toy_rsa_key :: rsa_PrivateKey where
  "toy_rsa_key = \<lparr>rsaN = 33, rsaE = 3, rsaD = 7\<rparr>"

definition toy_secret :: bytes where
  "toy_secret = replicate 64 7"

definition toy_envelope :: Message where
  "toy_envelope =
     \<lparr>Timestamp = 1000,
      Nonce = replicate 16 5,
      IV = replicate 16 9,
      Cipher = [4, 4, 4, 4, 4, 4, 4, 4, 4, 4, 4, 4, 4, 10, 11, 8],
      HMAC = replicate 32 7 @ [4, 4, 4, 4, 4, 4, 4, 4, 4, 4, 4, 4, 4, 10, 11, 8],
      Signature = [7, 1],
      PubKey = [1, 7, 0],
      RSASig = replicate 16 0 @ [4, 4, 4, 4, 4, 4, 4, 4, 4, 4, 4, 4, 4, 10, 11, 8, 33]\<rparr>"

definition idle_receiver :: receiver where
  "idle_receiver = \<lparr>tracker = globalNonceTracker, concurrentOps = 0, ran = []\<rparr>"

section \<open>Vocabulary of the statements\<close>

text \<open>
  The six checks of the receive path with their outcomes on an input, in the order of the
  specification, and the part of such a list that is executed when execution stops at
  the first failure.
\<close>

fun upto_first_failure :: "(check \<times> bool) list \<Rightarrow> (check \<times> bool) list" where
  "upto_first_failure [] = []"
| "upto_first_failure ((c, ok) # rest) = (c, ok) # (if ok then upto_first_failure rest else [])"

definition receive_checks ::
  "prims \<Rightarrow> int64 \<Rightarrow> Message \<Rightarrow> bytes \<Rightarrow> bytes \<Rightarrow> receiver \<Rightarrow> (check \<times> bool) list" where
  "receive_checks P now msg sharedSecret rsaPubKey s =
     [(CheckFreshness, \<not> timestamp_out_of_range now (Timestamp msg)),
      (CheckReplay, Nonce msg |\<notin>| fmdom (nonces (tracker s))),
      (CheckMAC, VerifyHMAC P (drop AESKeySize sharedSecret) (Cipher msg) (HMAC msg)),
      (CheckECDSA, VerifyECDSA P (PubKey msg) (Cipher msg) (Signature msg) = Inr True),
      (CheckRSA, VerifyRSA P rsaPubKey (Cipher msg) (RSASig msg)),
      (CheckDecrypt,
         \<not> isl (fst (AESDecrypt P (take AESKeySize sharedSecret) (IV msg) (Cipher msg)
                     (concurrentOps s))))]"

definition receive_order :: "check list" where
  "receive_order = [CheckFreshness, CheckReplay, CheckMAC, CheckECDSA, CheckRSA, CheckDecrypt]"

fun rejection_of :: "check \<Rightarrow> error \<Rightarrow> bool" where
  "rejection_of CheckFreshness e = (e = ErrTimestamp)"
| "rejection_of CheckReplay e = (e = ErrReplay)"
| "rejection_of CheckMAC e = (e = ErrHMAC)"
| "rejection_of CheckECDSA e = (e = ErrECDSA \<or> e = Panic)"
| "rejection_of CheckRSA e = (e = ErrRSA)"
| "rejection_of CheckDecrypt e = (case e of Panic \<Rightarrow> True | ErrDecrypt cause \<Rightarrow> True | _ \<Rightarrow> False)"

definition checks_reached :: "bytes \<Rightarrow> nat" where
  "checks_reached sharedSecret = (if AESKeySize \<le> length sharedSecret then 6 else 2)"

text \<open>
  What the round-trip statement assumes of the primitives and of the keys: the block
  cipher under the key decrypts what it encrypts, block for block; a key pair signs
  without error, its signatures verify under its public key (and survive the JSON
  encoding), and the public-key bytes parse to that public key.
\<close>

definition block_cipher_ok :: "prims \<Rightarrow> bytes \<Rightarrow> bool" where
  "block_cipher_ok P key \<longleftrightarrow>
     (\<forall>b. length b = BlockSize \<longrightarrow>
        length (aes_encrypt_block P key b) = BlockSize
        \<and> aes_decrypt_block P key (aes_encrypt_block P key b) = b)"

definition ecdsa_pair_ok :: "prims \<Rightarrow> ecdsa_PrivateKey \<Rightarrow> bytes \<Rightarrow> bool" where
  "ecdsa_pair_ok P priv pubBytes \<longleftrightarrow>
     x509_ParsePKIXPublicKey P pubBytes = Some (ECDSAPublicKey (ecX priv) (ecY priv))
     \<and> (\<forall>rnd h. \<exists>sg b. ecdsa_Sign P rnd priv h = Some sg
            \<and> json_Marshal P sg = Some b
            \<and> json_Unmarshal P b = Some (Some (fst sg), Some (snd sg))
            \<and> ecdsa_Verify P (ecX priv, ecY priv) h (Some (fst sg), Some (snd sg)) = Some True)"

definition rsa_pair_ok :: "prims \<Rightarrow> rsa_PrivateKey \<Rightarrow> bytes \<Rightarrow> bool" where
  "rsa_pair_ok P priv pubBytes \<longleftrightarrow>
     x509_ParsePKIXPublicKey P pubBytes = Some (RSAPublicKey (rsaN priv) (rsaE priv))
     \<and> (\<forall>h. \<exists>sg. rsa_SignPKCS1v15 P priv h = Some sg
            \<and> rsa_VerifyPKCS1v15 P (rsaN priv, rsaE priv) h sg)"

text \<open>
  What the symmetry statement assumes of the curve: every multiple of the base point is
  on the curve, and multiplying the base point by \<open>a\<close> and the result by \<open>b\<close> gives the
  same x-coordinate as in the other order; and of a generated key pair: its marshalled
  public key parses back.
\<close>

definition curve_scalars_commute :: "prims \<Rightarrow> bool" where
  "curve_scalars_commute P \<longleftrightarrow>
     (\<forall>a. curve_IsOnCurve P (curve_ScalarBaseMult P a))
     \<and> (\<forall>a b. fst (curve_ScalarMult P (curve_ScalarBaseMult P a) b)
            = fst (curve_ScalarMult P (curve_ScalarBaseMult P b) a))"

definition x509_roundtrip :: "prims \<Rightarrow> ecdsa_PrivateKey \<times> bytes \<Rightarrow> bool" where
  "x509_roundtrip P kp \<longleftrightarrow>
     x509_ParsePKIXPublicKey P (snd kp) = Some (ECDSAPublicKey (ecX (fst kp)) (ecY (fst kp)))"

section \<open>Invariants used in the proofs\<close>

text \<open>
  The rate-limit map against the specification's last-accepted times: every entry of the
  map is the client's last accepted time, and a last accepted time that is missing from
  the map is more than a minute older than \<open>lo\<close>, a lower bound of every later clock
  reading.
\<close>

text \<open>
  The threads of the race after the first \<open>k\<close> of \<open>n\<close> callers have loaded the counter, and
  after the first \<open>k\<close> have added to it.
\<close>

definition loaded_upto :: "nat \<Rightarrow> nat \<Rightarrow> pc list" where
  "loaded_upto n k = replicate k (Loaded 0) @ replicate (n - k) Start"

definition running_upto :: "nat \<Rightarrow> nat \<Rightarrow> pc list" where
  "running_upto n k = replicate k Running @ replicate (n - k) (Loaded 0)"

definition rl_inv :: "(string, time) fmap \<Rightarrow> (string \<Rightarrow> time option) \<Rightarrow> time \<Rightarrow> bool" where
  "rl_inv m la lo \<longleftrightarrow>
     (\<forall>k t. fmlookup m k = Some t \<longrightarrow> la k = Some t) \<and>
     (\<forall>k t. la k = Some t \<longrightarrow> fmlookup m k = Some t \<or> t < lo - Minute)"

section \<open>Admission control: results\<close>

lemma AESEncrypt_denied:
  "fst (AESEncrypt P key iv plaintext 100) = Inr []"
  by (simp add: AESEncrypt_def ConcurrencyCheck_def atomic_LoadInt64_def maxConcurrentOps_def)

lemma AESDecrypt_denied:
  "fst (AESDecrypt P key iv ciphertext 100) = Inl ErrConcurrency"
  by (simp add: AESDecrypt_def ConcurrencyCheck_def atomic_LoadInt64_def maxConcurrentOps_def)

lemma CreateSecureMessage_denied:
  "fst (CreateSecureMessage toy_prims [1, 2, 3] toy_secret toy_ecdsa_key [1, 7, 0] toy_rsa_key
          (replicate 16 9) (replicate 16 5) [] 1000 100)
     = Inr (toy_envelope\<lparr>Cipher := [], HMAC := replicate 32 7, RSASig := replicate 32 0 @ [33]\<rparr>)"
  by code_simp

text \<open>
  C10. When the concurrency guard refuses (the counter is at its cap), \<^verbatim>\<open>AESEncrypt\<close>
  returns the empty slice as an ordinary result, with no error, while \<^verbatim>\<open>AESDecrypt\<close>
  in the same state returns the typed failure; and \<^verbatim>\<open>CreateSecureMessage\<close> then returns
  an envelope whose ciphertext is empty, with a MAC and signatures over it.
\<close>

theorem AESEncrypt_denied_returns_nil:
  "fst (AESEncrypt P key iv plaintext 100) = Inr []
   \<and> fst (AESDecrypt P key iv ciphertext 100) = Inl ErrConcurrency
   \<and> fst (CreateSecureMessage toy_prims [1, 2, 3] toy_secret toy_ecdsa_key [1, 7, 0] toy_rsa_key
          (replicate 16 9) (replicate 16 5) [] 1000 100)
     = Inr (toy_envelope\<lparr>Cipher := [], HMAC := replicate 32 7, RSASig := replicate 32 0 @ [33]\<rparr>)"
  using AESEncrypt_denied AESDecrypt_denied CreateSecureMessage_denied by blast

lemma ConcurrencyCheck_admits:
  "ops <s maxConcurrentOps \<Longrightarrow> ConcurrencyCheck ops = (Inr (), ops + 1)"
  by (simp add: ConcurrencyCheck_def atomic_LoadInt64_def atomic_AddInt64_def
      word_sless_alt word_sle_eq)

lemma ConcurrencyCheck_refuses:
  "\<not> ops <s maxConcurrentOps \<Longrightarrow> ConcurrencyCheck ops = (Inl ErrConcurrency, ops)"
  by (simp add: ConcurrencyCheck_def atomic_LoadInt64_def word_sless_alt word_sle_eq)

text \<open>
  With no other caller in between, a call of \<^verbatim>\<open>AESEncrypt\<close> or \<^verbatim>\<open>AESDecrypt\<close> leaves the
  counter as it found it on every path: a successful check is matched by the deferred
  release.
\<close>

lemma guarded_call_restores_counter:
  "snd (AESEncrypt P key iv plaintext ops) = ops"
  "snd (AESDecrypt P key iv ciphertext ops) = ops"
  by (cases "ops <s maxConcurrentOps";
      simp add: AESEncrypt_def AESDecrypt_def ConcurrencyCheck_admits ConcurrencyCheck_refuses
        ConcurrencyRelease_def atomic_AddInt64_def)+

lemma run_schedule_append:
  "run_schedule st (xs @ ys) = run_schedule (run_schedule st xs) ys"
  by (simp add: run_schedule_def)

lemma run_schedule_snoc:
  "run_schedule st (xs @ [i]) = thread_step (run_schedule st xs) i"
  by (simp add: run_schedule_def)

lemma load_step:
  assumes "k < n"
  shows "thread_step (0, loaded_upto n k) k = (0, loaded_upto n (Suc k))"
proof -
  from assms have "n - k = Suc (n - Suc k)" by simp
  then have r: "replicate (n - k) Start = Start # replicate (n - Suc k) Start"
    by (simp only: replicate_Suc)
  have nth: "loaded_upto n k ! k = Start"
    by (simp add: loaded_upto_def r nth_append)
  have upd: "(loaded_upto n k)[k := Loaded 0] = loaded_upto n (Suc k)"
    by (simp add: loaded_upto_def r list_update_append replicate_append_same)
  from assms show ?thesis
    by (simp add: thread_step_def nth upd atomic_LoadInt64_def) (simp add: loaded_upto_def)
qed

lemma all_load:
  "k \<le> n \<Longrightarrow> run_schedule (0, replicate n Start) [0..<k] = (0, loaded_upto n k)"
proof (induction k)
  case 0
  then show ?case by (simp add: run_schedule_def loaded_upto_def)
next
  case (Suc k)
  then show ?case by (simp add: run_schedule_snoc load_step)
qed

lemma add_step:
  assumes "k < n"
  shows "thread_step (word_of_nat k, running_upto n k) k = (word_of_nat (Suc k), running_upto n (Suc k))"
proof -
  from assms have "n - k = Suc (n - Suc k)" by simp
  then have r: "replicate (n - k) (Loaded 0) = Loaded 0 # replicate (n - Suc k) (Loaded 0)"
    by (simp only: replicate_Suc)
  have nth: "running_upto n k ! k = Loaded 0"
    by (simp add: running_upto_def r nth_append)
  have upd: "(running_upto n k)[k := Running] = running_upto n (Suc k)"
    by (simp add: running_upto_def r list_update_append replicate_append_same)
  have cmp: "\<not> maxConcurrentOps \<le>s (0 :: int64)"
    by (simp add: maxConcurrentOps_def word_sle_eq)
  from assms show ?thesis
    by (simp add: thread_step_def nth upd cmp atomic_AddInt64_def) (simp add: running_upto_def)
qed

lemma all_add:
  "k \<le> n \<Longrightarrow> run_schedule (0, running_upto n 0) [0..<k] = (word_of_nat k, running_upto n k)"
proof (induction k)
  case 0
  then show ?case by (simp add: run_schedule_def)
next
  case (Suc k)
  then show ?case by (simp add: run_schedule_snoc add_step)
qed

lemma race_general:
  "run_schedule (0, replicate n Start) ([0..<n] @ [0..<n]) = (word_of_nat n, replicate n Running)"
proof -
  have "loaded_upto n n = running_upto n 0"
    by (simp add: loaded_upto_def running_upto_def)
  then show ?thesis
    using all_load [of n n] all_add [of n n]
    by (simp add: run_schedule_append running_upto_def)
qed

text \<open>
  C7. With \<open>n\<close> concurrent callers and the counter at 0, the schedule in which every
  caller performs the load of \<^verbatim>\<open>ConcurrencyCheck\<close> before any caller performs the add
  leaves the counter at \<open>n\<close>; for more than 100 callers that is above the cap: the check
  and the increment are two separate atomic operations.
\<close>

theorem ConcurrencyCheck_race_exceeds_cap:
  assumes "100 < n" "n < 2 ^ 63"
  shows "fst (run_schedule (0, replicate n Start) ([0..<n] @ [0..<n])) = word_of_nat n
     \<and> maxConcurrentOps <s fst (run_schedule (0, replicate n Start) ([0..<n] @ [0..<n]))"
proof -
  have "sint (word_of_nat n :: int64) = signed_take_bit 63 (int n)"
    by (simp add: signed_of_nat)
  also have "\<dots> = int n"
    using assms(2) by (simp add: signed_take_bit_int_eq_self)
  finally have "sint (word_of_nat n :: int64) = int n" .
  with assms(1) have "maxConcurrentOps <s (word_of_nat n :: int64)"
    by (simp add: maxConcurrentOps_def word_sless_alt)
  then show ?thesis by (simp add: race_general)
qed

theorem ConcurrencyCheck_race_exceeds_cap_witness:
  "fst (run_schedule (0, replicate 101 Start) ([0..<101] @ [0..<101])) = 101
   \<and> maxConcurrentOps <s fst (run_schedule (0, replicate 101 Start) ([0..<101] @ [0..<101]))"
proof -
  have h: "(100 :: nat) < 101" "(101 :: nat) < 2 ^ 63" by simp_all
  from ConcurrencyCheck_race_exceeds_cap [OF h] show ?thesis
    by (simp add: maxConcurrentOps_def word_sless_alt)
qed


lemma evict_before_lookup:
  "fmlookup (evict_before cutoff m) k =
     (case fmlookup m k of None \<Rightarrow> None | Some t \<Rightarrow> if t < cutoff then None else Some t)"
  by (simp add: evict_before_def split: option.splits)

lemma RateLimitCheck_reject_iff:
  "fst (RateLimitCheck m c now) = Inl ErrRateLimit \<longleftrightarrow>
     (\<exists>t. fmlookup m c = Some t \<and> now - t < minOpInterval)"
  by (simp add: RateLimitCheck_def split: option.splits)

lemma RateLimitCheck_cases:
  "RateLimitCheck m c now =
     (if (\<exists>t. fmlookup m c = Some t \<and> now - t < minOpInterval) then (Inl ErrRateLimit, m)
      else (Inr (), evict_before (now - Minute) (fmupd c now m)))"
  by (simp add: RateLimitCheck_def split: option.splits)

lemma rl_inv_decide:
  assumes "rl_inv m la lo" "lo \<le> now"
  shows "(\<exists>t. fmlookup m c = Some t \<and> now - t < minOpInterval) \<longleftrightarrow>
         (case la c of None \<Rightarrow> False | Some t \<Rightarrow> now - t < minOpInterval)"
proof (cases "la c")
  case None
  with assms(1) have "fmlookup m c = None"
    unfolding rl_inv_def by (cases "fmlookup m c") auto
  with None show ?thesis by simp
next
  case (Some t)
  with assms(1) have "fmlookup m c = Some t \<or> t < lo - Minute"
    unfolding rl_inv_def by blast
  then show ?thesis
  proof
    assume "fmlookup m c = Some t"
    with Some show ?thesis by simp
  next
    assume h: "t < lo - Minute"
    with assms(2) have far: "\<not> now - t < minOpInterval"
      by (simp add: Minute_def minOpInterval_def Millisecond_def)
    have "\<not> (\<exists>t'. fmlookup m c = Some t' \<and> now - t' < minOpInterval)"
    proof
      assume "\<exists>t'. fmlookup m c = Some t' \<and> now - t' < minOpInterval"
      then obtain t' where t': "fmlookup m c = Some t'" "now - t' < minOpInterval" by blast
      from assms(1) t'(1) have "la c = Some t'" unfolding rl_inv_def by blast
      with Some have "t' = t" by simp
      with t'(2) far show False by simp
    qed
    with Some far show ?thesis by simp
  qed
qed

lemma rl_inv_reject:
  assumes "rl_inv m la lo" "lo \<le> now"
  shows "rl_inv m la now"
  unfolding rl_inv_def
proof (intro conjI allI impI)
  fix k t assume "fmlookup m k = Some t"
  with assms(1) show "la k = Some t" unfolding rl_inv_def by blast
next
  fix k t assume "la k = Some t"
  with assms(1) have "fmlookup m k = Some t \<or> t < lo - Minute"
    unfolding rl_inv_def by blast
  with assms(2) show "fmlookup m k = Some t \<or> t < now - Minute" by auto
qed

lemma rl_inv_accept:
  assumes "rl_inv m la lo" "lo \<le> now"
  shows "rl_inv (evict_before (now - Minute) (fmupd c now m)) (la(c \<mapsto> now)) now"
  unfolding rl_inv_def
proof (intro conjI allI impI)
  fix k t
  assume h: "fmlookup (evict_before (now - Minute) (fmupd c now m)) k = Some t"
  show "(la(c \<mapsto> now)) k = Some t"
  proof (cases "k = c")
    case True
    with h show ?thesis by (simp add: evict_before_lookup split: if_splits)
  next
    case False
    with h have "fmlookup m k = Some t"
      by (simp add: evict_before_lookup split: option.splits if_splits)
    with assms(1) have "la k = Some t" unfolding rl_inv_def by blast
    with False show ?thesis by simp
  qed
next
  fix k t
  assume h: "(la(c \<mapsto> now)) k = Some t"
  show "fmlookup (evict_before (now - Minute) (fmupd c now m)) k = Some t \<or> t < now - Minute"
  proof (cases "k = c")
    case True
    with h show ?thesis by (simp add: evict_before_lookup Minute_def)
  next
    case False
    with h have "la k = Some t" by simp
    with assms(1) have "fmlookup m k = Some t \<or> t < lo - Minute"
      unfolding rl_inv_def by blast
    with assms(2) False show ?thesis
      by (auto simp: evict_before_lookup)
  qed
qed

lemma RateLimit_run_refines:
  "rl_inv m la lo \<Longrightarrow> sorted (lo # map snd calls) \<Longrightarrow>
     RateLimit_run m calls = spec_checkRate_run la calls"
proof (induction calls arbitrary: m la lo)
  case Nil
  then show ?case by simp
next
  case (Cons call calls)
  obtain c now where call: "call = (c, now)" by (cases call)
  from Cons.prems(2) call have le: "lo \<le> now" and srt: "sorted (now # map snd calls)"
    by auto
  note dec = rl_inv_decide [OF Cons.prems(1) le, of c]
  show ?case
  proof (cases "\<exists>t. fmlookup m c = Some t \<and> now - t < minOpInterval")
    case True
    have "RateLimit_run m calls = spec_checkRate_run la calls"
      by (rule Cons.IH [OF rl_inv_reject [OF Cons.prems(1) le] srt])
    with True dec call show ?thesis
      by (simp add: RateLimitCheck_cases)
  next
    case False
    have "RateLimit_run (evict_before (now - Minute) (fmupd c now m)) calls
            = spec_checkRate_run (la(c \<mapsto> now)) calls"
      by (rule Cons.IH [OF rl_inv_accept [OF Cons.prems(1) le] srt])
    with False dec call show ?thesis
      by (simp add: RateLimitCheck_cases)
  qed
qed

lemma rl_inv_empty: "rl_inv fmempty Map.empty lo"
  by (simp add: rl_inv_def)

lemma RateLimit_run_from_empty:
  assumes "sorted (map snd calls)"
  shows "RateLimit_run fmempty calls = spec_checkRate_run Map.empty calls"
proof (cases calls)
  case Nil
  then show ?thesis by simp
next
  case (Cons call rest)
  with assms have "sorted (snd call # map snd calls)" by simp
  from RateLimit_run_refines [OF rl_inv_empty this] show ?thesis .
qed

text \<open>
  C8. For any sequence of calls whose clock readings do not decrease, starting from the
  empty map, \<^verbatim>\<open>RateLimitCheck\<close> rejects exactly the calls that the specification's
  \<open>checkRate\<close> rejects: those made less than 10 ms after the same client's last accepted
  operation. In any state, a call is rejected exactly when the client has an entry less
  than 10 ms old; a rejected call leaves the map as it was; an accepted call records the
  current time for the client, leaves no entry older than 60 s, and keeps every other
  entry that is not older than 60 s.
\<close>

theorem RateLimitCheck_meets_checkRate:
  assumes "sorted (map snd calls)"
  shows "RateLimit_run fmempty calls = spec_checkRate_run Map.empty calls
     \<and> (fst (RateLimitCheck m c now) = Inl ErrRateLimit
          \<longleftrightarrow> (\<exists>t. fmlookup m c = Some t \<and> now - t < minOpInterval))
     \<and> (fst (RateLimitCheck m c now) = Inl ErrRateLimit \<longrightarrow> snd (RateLimitCheck m c now) = m)
     \<and> (fst (RateLimitCheck m c now) \<noteq> Inl ErrRateLimit \<longrightarrow>
          fst (RateLimitCheck m c now) = Inr ()
          \<and> fmlookup (snd (RateLimitCheck m c now)) c = Some now
          \<and> (\<forall>k t. fmlookup (snd (RateLimitCheck m c now)) k = Some t \<longrightarrow> \<not> t < now - Minute)
          \<and> (\<forall>k. k \<noteq> c \<longrightarrow> fmlookup (snd (RateLimitCheck m c now)) k =
                (case fmlookup m k of None \<Rightarrow> None
                 | Some t \<Rightarrow> if t < now - Minute then None else Some t)))"
proof -
  have 1: "RateLimit_run fmempty calls = spec_checkRate_run Map.empty calls"
    by (rule RateLimit_run_from_empty [OF assms])
  have 2: "fst (RateLimitCheck m c now) = Inl ErrRateLimit
          \<longleftrightarrow> (\<exists>t. fmlookup m c = Some t \<and> now - t < minOpInterval)"
    by (rule RateLimitCheck_reject_iff)
  have 3: "fst (RateLimitCheck m c now) = Inl ErrRateLimit \<longrightarrow> snd (RateLimitCheck m c now) = m"
    by (simp add: RateLimitCheck_cases)
  have 4: "fst (RateLimitCheck m c now) \<noteq> Inl ErrRateLimit \<longrightarrow>
          fst (RateLimitCheck m c now) = Inr ()
          \<and> fmlookup (snd (RateLimitCheck m c now)) c = Some now
          \<and> (\<forall>k t. fmlookup (snd (RateLimitCheck m c now)) k = Some t \<longrightarrow> \<not> t < now - Minute)
          \<and> (\<forall>k. k \<noteq> c \<longrightarrow> fmlookup (snd (RateLimitCheck m c now)) k =
                (case fmlookup m k of None \<Rightarrow> None
                 | Some t \<Rightarrow> if t < now - Minute then None else Some t))"
    by (auto simp: RateLimitCheck_cases evict_before_lookup Minute_def split: option.splits if_splits)
  from 1 2 3 4 show ?thesis by blast
qed



theorem RateLimitCheck_meets_checkRate_witness:
  "sorted (map snd [(''a'', 0), (''a'', 5000000), (''b'', 5000000), (''a'', 10000000),
                    (''a'', 70000000000 :: time)])
   \<and> RateLimit_run fmempty [(''a'', 0), (''a'', 5000000), (''b'', 5000000), (''a'', 10000000),
                             (''a'', 70000000000)]
       = [Inr (), Inl ErrRateLimit, Inr (), Inr (), Inr ()]"
proof -
  have h: "sorted (map snd [(''a'', 0), (''a'', 5000000), (''b'', 5000000), (''a'', 10000000),
                            (''a'', 70000000000 :: time)])"
    by simp
  have "RateLimit_run fmempty [(''a'', 0), (''a'', 5000000), (''b'', 5000000), (''a'', 10000000),
                               (''a'', 70000000000)]
        = spec_checkRate_run Map.empty [(''a'', 0), (''a'', 5000000), (''b'', 5000000),
                               (''a'', 10000000), (''a'', 70000000000)]"
    using RateLimitCheck_meets_checkRate [OF h] by (rule conjunct1)
  also have "\<dots> = [Inr (), Inl ErrRateLimit, Inr (), Inr (), Inr ()]"
    by (simp add: minOpInterval_def Millisecond_def)
  finally show ?thesis using h by simp
qed

section \<open>Freshness: results\<close>

lemma stale_by_31_rejected: "timestamp_out_of_range now (now - 31)"
  by (simp add: timestamp_out_of_range_def MaxTimeDifference_def word_sless_alt)

lemma future_rejected:
  fixes now ts :: int64
  assumes "30 < sint ts - sint now"
  shows "timestamp_out_of_range now ts"
proof -
  have b: "- (2 ^ 63) \<le> sint now" "sint ts < 2 ^ 63"
    using sint_ge [of now] sint_lt [of ts] by simp_all
  have "sint (ts - 30) = sint ts - 30"
    using assms b by (simp add: sint_word_ariths signed_take_bit_int_eq_self)
  with assms show ?thesis
    by (simp add: timestamp_out_of_range_def MaxTimeDifference_def word_sless_alt)
qed

lemma overflow_passes_freshness:
  "\<not> timestamp_out_of_range 1700000000 (- 9223372036854775778)"
  by (simp add: timestamp_out_of_range_def MaxTimeDifference_def word_sless_alt)

lemma overflow_envelope_accepted:
  "fst (VerifyAndDecryptMessage toy_prims 1700000000 0 0
          (toy_envelope\<lparr>Timestamp := - 9223372036854775778\<rparr>) toy_secret [2, 33, 3]
          idle_receiver) = Inr [1, 2, 3]"
  by code_simp

text \<open>
  C5. At the clock reading 1700000000, an envelope whose timestamp is
  \<open>-9223372036854775778\<close> (the least 64-bit integer plus 30) is not rejected by the
  freshness test, since \<open>now - timestamp\<close> overflows to a negative number, and
  \<^verbatim>\<open>VerifyAndDecryptMessage\<close> accepts the envelope.
\<close>

theorem freshness_check_overflow:
  "\<not> timestamp_out_of_range 1700000000 (- 9223372036854775778)
   \<and> fst (VerifyAndDecryptMessage toy_prims 1700000000 0 0
          (toy_envelope\<lparr>Timestamp := - 9223372036854775778\<rparr>) toy_secret [2, 33, 3]
          idle_receiver) = Inr [1, 2, 3]"
  using overflow_passes_freshness overflow_envelope_accepted by blast

section \<open>Key agreement: results\<close>

text \<open>
  C2. Whenever \<^verbatim>\<open>ComputeSharedSecret\<close> returns, the secret has exactly 32 bytes: the
  encryption-key segment is the whole secret and the MAC-key segment is empty, shorter
  than \<^verbatim>\<open>HMACKeySize\<close>.
\<close>

theorem ComputeSharedSecret_mac_key_empty:
  "ComputeSharedSecret P priv peerPubBytes = Inr secret \<Longrightarrow>
     length secret = 32 \<and> take AESKeySize secret = secret \<and> drop AESKeySize secret = []
     \<and> length (drop AESKeySize secret) < HMACKeySize"
  by (auto simp: ComputeSharedSecret_def array_bytes_def AESKeySize_def HMACKeySize_def
      split: option.splits pubkey.splits prod.splits if_splits)

theorem ComputeSharedSecret_mac_key_empty_witness:
  "ComputeSharedSecret toy_prims \<lparr>ecX = 7, ecY = 0, ecD = 7\<rparr> [1, 5, 0]
     = Inr (replicate 31 0 @ [35])
   \<and> length (replicate 31 0 @ [35 :: byte]) = 32
   \<and> drop AESKeySize (replicate 31 0 @ [35 :: byte]) = []"
proof -
  have h: "ComputeSharedSecret toy_prims \<lparr>ecX = 7, ecY = 0, ecD = 7\<rparr> [1, 5, 0]
             = Inr (replicate 31 0 @ [35])"
    by code_simp
  show ?thesis
    using h ComputeSharedSecret_mac_key_empty [OF h] by simp
qed

section \<open>The receive path: results\<close>

lemma AddNonce_present:
  "nonce |\<in>| fmdom (nonces nt) \<Longrightarrow> AddNonce nt nonce tsweep tins = (Inl ErrReplay, nt)"
  by (simp add: AddNonce_def)

lemma AddNonce_absent:
  "nonce |\<notin>| fmdom (nonces nt) \<Longrightarrow>
     fst (AddNonce nt nonce tsweep tins) = Inr ()
     \<and> fmlookup (nonces (snd (AddNonce nt nonce tsweep tins))) nonce = Some tins"
  by (simp add: AddNonce_def Let_def)


lemma Verify_tracker:
  "tracker (snd (VerifyAndDecryptMessage P now tsweep tins msg sharedSecret rsaPubKey s)) =
     (if timestamp_out_of_range now (Timestamp msg) then tracker s
      else snd (AddNonce (tracker s) (Nonce msg) tsweep tins))"
  by (simp add: VerifyAndDecryptMessage_def Let_def record_check_def
      split: prod.splits sum.splits)




lemma VerifyECDSA_Inl:
  "VerifyECDSA P pubBytes data sig = Inl e \<Longrightarrow> e = Panic"
  by (auto simp: VerifyECDSA_def split: option.splits pubkey.splits)

lemma Verify_ran:
  assumes "AESKeySize \<le> length sharedSecret"
  shows "ran (snd (VerifyAndDecryptMessage P now tsweep tins msg sharedSecret rsaPubKey s)) =
           ran s @ upto_first_failure (receive_checks P now msg sharedSecret rsaPubKey s)"
  using assms
  by (auto simp: VerifyAndDecryptMessage_def Let_def record_check_def receive_checks_def
      AddNonce_def dest: VerifyECDSA_Inl split: prod.splits sum.splits)

lemma Verify_result:
  assumes "AESKeySize \<le> length sharedSecret"
  shows "case fst (VerifyAndDecryptMessage P now tsweep tins msg sharedSecret rsaPubKey s) of
           Inr p \<Rightarrow> list_all snd (receive_checks P now msg sharedSecret rsaPubKey s)
         | Inl e \<Rightarrow>
             \<not> snd (last (upto_first_failure (receive_checks P now msg sharedSecret rsaPubKey s)))
             \<and> rejection_of (fst (last (upto_first_failure
                    (receive_checks P now msg sharedSecret rsaPubKey s)))) e"
  using assms
  by (auto simp: VerifyAndDecryptMessage_def Let_def record_check_def receive_checks_def
      AddNonce_def dest: VerifyECDSA_Inl split: prod.splits sum.splits)

lemma Verify_ran_short:
  assumes "length sharedSecret < AESKeySize"
  shows "ran (snd (VerifyAndDecryptMessage P now tsweep tins msg sharedSecret rsaPubKey s)) =
           ran s @ upto_first_failure (take 2 (receive_checks P now msg sharedSecret rsaPubKey s))"
  using assms
  by (auto simp: VerifyAndDecryptMessage_def Let_def record_check_def receive_checks_def
      AddNonce_def dest: VerifyECDSA_Inl split: prod.splits sum.splits)

lemma Verify_result_short:
  assumes "length sharedSecret < AESKeySize"
  shows "case fst (VerifyAndDecryptMessage P now tsweep tins msg sharedSecret rsaPubKey s) of
           Inr p \<Rightarrow> False
         | Inl e \<Rightarrow>
             (e = Panic \<and> list_all snd (take 2 (receive_checks P now msg sharedSecret rsaPubKey s)))
             \<or> (\<not> snd (last (upto_first_failure
                      (take 2 (receive_checks P now msg sharedSecret rsaPubKey s))))
                \<and> rejection_of (fst (last (upto_first_failure
                      (take 2 (receive_checks P now msg sharedSecret rsaPubKey s))))) e)"
  using assms
  by (auto simp: VerifyAndDecryptMessage_def Let_def record_check_def receive_checks_def
      AddNonce_def dest: VerifyECDSA_Inl split: prod.splits sum.splits)

lemma upto_first_failure_order:
  "map fst (upto_first_failure xs) = take (length (upto_first_failure xs)) (map fst xs)"
  by (induction xs rule: upto_first_failure.induct) auto

lemma upto_first_failure_butlast:
  "list_all snd (butlast (upto_first_failure xs))"
  by (induction xs rule: upto_first_failure.induct) auto

lemma upto_first_failure_nonempty:
  "xs \<noteq> [] \<Longrightarrow> upto_first_failure xs \<noteq> []"
  by (cases xs rule: upto_first_failure.cases) auto

lemma receive_checks_order:
  "map fst (receive_checks P now msg sharedSecret rsaPubKey s) = receive_order"
  by (simp add: receive_checks_def receive_order_def)

lemma nil_signature_panics:
  "VerifyAndDecryptMessage toy_prims 1010 0 42
     (toy_envelope\<lparr>Signature := [110, 117, 108, 108]\<rparr>) toy_secret [2, 33, 3] idle_receiver
   = (Inl Panic,
      idle_receiver\<lparr>tracker := globalNonceTracker\<lparr>nonces := fmupd (replicate 16 5) 42 fmempty\<rparr>,
        ran := [(CheckFreshness, True), (CheckReplay, True), (CheckMAC, True),
                (CheckECDSA, False)]\<rparr>)"
  by code_simp

text \<open>
  C4. The checks that \<^verbatim>\<open>VerifyAndDecryptMessage\<close> executes are an initial segment of
  freshness, replay, MAC, ECDSA, RSA, decryption, in that order, each with the outcome
  that check has on the input; every executed check but the last has passed, so none runs
  after a failure. The envelope is accepted only when all six have run and passed;
  otherwise the last executed check has not passed and the error is that check's
  rejection, where a panic of the ECDSA verification on a signature with a nil component
  or of the decryption ends the call at that check (or the secret is shorter than 32
  bytes and slicing it panics after the replay check).
\<close>

theorem receive_path_order:
  fixes P now tsweep tins msg sharedSecret rsaPubKey s
  defines "V \<equiv> VerifyAndDecryptMessage P now tsweep tins msg sharedSecret rsaPubKey s"
    and "cs \<equiv> take (checks_reached sharedSecret)
                   (receive_checks P now msg sharedSecret rsaPubKey s)"
  shows "ran (snd V) = ran s @ upto_first_failure cs
     \<and> upto_first_failure cs \<noteq> []
     \<and> map fst (upto_first_failure cs) = take (length (upto_first_failure cs)) receive_order
     \<and> list_all snd (butlast (upto_first_failure cs))
     \<and> (case fst V of
          Inr p \<Rightarrow> list_all snd cs \<and> length cs = 6
        | Inl e \<Rightarrow>
            (e = Panic \<and> list_all snd cs \<and> length cs = 2)
            \<or> (\<not> snd (last (upto_first_failure cs))
               \<and> rejection_of (fst (last (upto_first_failure cs))) e))"
proof (cases "AESKeySize \<le> length sharedSecret")
  case True
  then have cs: "cs = receive_checks P now msg sharedSecret rsaPubKey s"
    by (simp add: cs_def checks_reached_def receive_checks_def)
  have len: "length cs = 6" by (simp add: cs receive_checks_def)
  have 1: "ran (snd V) = ran s @ upto_first_failure cs"
    unfolding V_def cs by (rule Verify_ran [OF True])
  have 2: "upto_first_failure cs \<noteq> []"
    by (rule upto_first_failure_nonempty) (simp add: cs receive_checks_def)
  have 3: "map fst (upto_first_failure cs) = take (length (upto_first_failure cs)) receive_order"
    using upto_first_failure_order [of cs] by (simp add: cs receive_checks_order)
  have 4: "list_all snd (butlast (upto_first_failure cs))"
    by (rule upto_first_failure_butlast)
  have 5: "case fst V of
          Inr p \<Rightarrow> list_all snd cs \<and> length cs = 6
        | Inl e \<Rightarrow>
            (e = Panic \<and> list_all snd cs \<and> length cs = 2)
            \<or> (\<not> snd (last (upto_first_failure cs))
               \<and> rejection_of (fst (last (upto_first_failure cs))) e)"
    using Verify_result [OF True, where P = P and now = now and tsweep = tsweep and tins = tins and msg = msg and rsaPubKey = rsaPubKey and s = s] len
    unfolding V_def cs by (simp split: sum.splits)
  from 1 2 3 4 5 show ?thesis by blast
next
  case False
  then have short: "length sharedSecret < AESKeySize" by simp
  then have cs: "cs = take 2 (receive_checks P now msg sharedSecret rsaPubKey s)"
    by (simp add: cs_def checks_reached_def)
  have len: "length cs = 2" by (simp add: cs receive_checks_def)
  have 1: "ran (snd V) = ran s @ upto_first_failure cs"
    unfolding V_def cs by (rule Verify_ran_short [OF short])
  have 2: "upto_first_failure cs \<noteq> []"
    by (rule upto_first_failure_nonempty) (simp add: cs receive_checks_def)
  have "map fst cs = take 2 receive_order"
    by (simp add: cs take_map [symmetric] receive_checks_order)
  then have 3: "map fst (upto_first_failure cs) = take (length (upto_first_failure cs)) receive_order"
    using upto_first_failure_order [of cs] by (simp add: cs receive_checks_def receive_order_def)
  have 4: "list_all snd (butlast (upto_first_failure cs))"
    by (rule upto_first_failure_butlast)
  have 5: "case fst V of
          Inr p \<Rightarrow> list_all snd cs \<and> length cs = 6
        | Inl e \<Rightarrow>
            (e = Panic \<and> list_all snd cs \<and> length cs = 2)
            \<or> (\<not> snd (last (upto_first_failure cs))
               \<and> rejection_of (fst (last (upto_first_failure cs))) e)"
    using Verify_result_short [OF short, where P = P and now = now and tsweep = tsweep and tins = tins and msg = msg and rsaPubKey = rsaPubKey and s = s] len
    unfolding V_def cs by (simp split: sum.splits)
  from 1 2 3 4 5 show ?thesis by blast
qed

theorem receive_path_order_witness:
  "ran (snd (VerifyAndDecryptMessage toy_prims 1010 0 42 (toy_envelope\<lparr>HMAC := []\<rparr>)
               toy_secret [2, 33, 3] idle_receiver))
     = [(CheckFreshness, True), (CheckReplay, True), (CheckMAC, False)]"
proof -
  have "ran (snd (VerifyAndDecryptMessage toy_prims 1010 0 42 (toy_envelope\<lparr>HMAC := []\<rparr>)
               toy_secret [2, 33, 3] idle_receiver))
        = ran idle_receiver @ upto_first_failure (take (checks_reached toy_secret)
            (receive_checks toy_prims 1010 (toy_envelope\<lparr>HMAC := []\<rparr>) toy_secret [2, 33, 3]
               idle_receiver))"
    using receive_path_order by (rule conjunct1)
  also have "\<dots> = [(CheckFreshness, True), (CheckReplay, True), (CheckMAC, False)]"
    by code_simp
  finally show ?thesis .
qed




text \<open>
  C6, as amended. An envelope rejected by the freshness check, or whose nonce is already
  in the tracker, leaves the tracker unchanged; an envelope that passes the freshness
  check with a nonce not yet in the tracker has its nonce recorded, whatever the MAC,
  signature and decryption checks then decide.
\<close>

theorem nonce_recorded_before_authentication:
  fixes P now tsweep tins msg sharedSecret rsaPubKey s
  defines "V \<equiv> VerifyAndDecryptMessage P now tsweep tins msg sharedSecret rsaPubKey s"
  shows "(timestamp_out_of_range now (Timestamp msg) \<or> Nonce msg |\<in>| fmdom (nonces (tracker s))
            \<longrightarrow> tracker (snd V) = tracker s)
     \<and> (\<not> timestamp_out_of_range now (Timestamp msg) \<and> Nonce msg |\<notin>| fmdom (nonces (tracker s))
            \<longrightarrow> fmlookup (nonces (tracker (snd V))) (Nonce msg) = Some tins)"
  unfolding V_def
  by (auto simp: Verify_tracker AddNonce_present AddNonce_absent)

theorem nonce_recorded_before_authentication_witness:
  "fmlookup (nonces (tracker (snd (VerifyAndDecryptMessage toy_prims 1010 0 42
       (toy_envelope\<lparr>HMAC := []\<rparr>) toy_secret [2, 33, 3] idle_receiver))))
     (Nonce (toy_envelope\<lparr>HMAC := []\<rparr>)) = Some 42"
proof -
  have f: "\<not> timestamp_out_of_range 1010 (Timestamp (toy_envelope\<lparr>HMAC := []\<rparr>))
           \<and> Nonce (toy_envelope\<lparr>HMAC := []\<rparr>) |\<notin>| fmdom (nonces (tracker idle_receiver))"
    by code_simp
  from nonce_recorded_before_authentication [THEN conjunct2, rule_format, OF f]
  show ?thesis .
qed

text \<open>
  C6 as stated fails: an envelope with a wrong MAC is rejected, and its nonce, absent
  from the tracker before, is in the tracker afterwards.
\<close>

theorem rejected_envelope_consumes_nonce:
  "fst (VerifyAndDecryptMessage toy_prims 1010 0 42 (toy_envelope\<lparr>HMAC := []\<rparr>)
          toy_secret [2, 33, 3] idle_receiver) = Inl ErrHMAC
   \<and> fmlookup (nonces (tracker idle_receiver)) (replicate 16 5) = None
   \<and> fmlookup (nonces (tracker (snd (VerifyAndDecryptMessage toy_prims 1010 0 42
          (toy_envelope\<lparr>HMAC := []\<rparr>) toy_secret [2, 33, 3] idle_receiver))))
        (replicate 16 5) = Some 42"
  by code_simp

section \<open>Round trip: results\<close>

lemma padding_bytes_ok_replicate: "padding_bytes_ok (replicate n p) p"
  by (induction n) auto

lemma PKCS7Pad_length: "length (PKCS7Pad d) mod BlockSize = 0"
proof -
  have "(length d + (16 - length d mod 16)) mod 16 = 0"
    by presburger
  then show ?thesis by (simp add: PKCS7Pad_def Let_def)
qed

lemma PKCS7Pad_nonempty: "PKCS7Pad d \<noteq> []"
  by (simp add: PKCS7Pad_def Let_def)

lemma PKCS7Unpad_Pad: "PKCS7Unpad (PKCS7Pad d) = Inr d"
proof -
  define pad where "pad = 16 - length d mod 16"
  have pad: "0 < pad" "pad \<le> 16" by (simp_all add: pad_def)
  have un: "unat (of_nat pad :: byte) = pad"
    using pad by (simp add: unat_of_nat)
  have P: "PKCS7Pad d = d @ replicate pad (of_nat pad)"
    by (simp add: PKCS7Pad_def pad_def)
  have l: "last (d @ replicate pad (of_nat pad :: byte)) = of_nat pad"
    using pad by simp
  show ?thesis
    unfolding P PKCS7Unpad_def Let_def l un
    using pad by (simp add: padding_bytes_ok_replicate)
qed

lemma xor_bytes_length: "length (xor_bytes a b) = min (length a) (length b)"
  by (simp add: xor_bytes_def)

lemma xor_bytes_cancel: "length a = length b \<Longrightarrow> xor_bytes (xor_bytes a b) b = a"
  unfolding xor_bytes_def
  by (induction a b rule: list_induct2) (auto simp: xor.assoc)

lemma CBC_roundtrip:
  "(\<forall>b. length b = BlockSize \<longrightarrow> length (E b) = BlockSize \<and> D (E b) = b) \<Longrightarrow>
   length iv = BlockSize \<Longrightarrow> length src mod BlockSize = 0 \<Longrightarrow>
     length (CBCEncrypt E iv src) = length src
     \<and> CBCDecrypt D iv (CBCEncrypt E iv src) = src"
proof (induction E iv src rule: CBCEncrypt.induct)
  case (1 E iv src)
  show ?case
  proof (cases "src = []")
    case True
    then show ?thesis by (simp add: CBCEncrypt.simps CBCDecrypt.simps)
  next
    case False
    with "1.prems"(3) have len: "16 \<le> length src"
      by (cases "length src < 16") auto
    define blk where "blk = take 16 src"
    define c where "c = E (xor_bytes blk iv)"
    define rest where "rest = drop 16 src"
    have lblk: "length blk = 16" using len by (simp add: blk_def)
    have lx: "length (xor_bytes blk iv) = 16"
      using lblk "1.prems"(2) by (simp add: xor_bytes_length)
    from "1.prems"(1) lx have lc: "length c = 16" and dc: "D c = xor_bytes blk iv"
      by (simp_all add: c_def)
    have lrest: "length rest mod 16 = 0"
      using "1.prems"(3) len by (simp add: rest_def mod_diff_eq [symmetric] le_mod_geq)
    have enc: "CBCEncrypt E iv src = c @ CBCEncrypt E c rest"
      using False by (subst CBCEncrypt.simps) (simp add: Let_def c_def blk_def rest_def)
    have IH: "length (CBCEncrypt E c rest) = length rest
              \<and> CBCDecrypt D c (CBCEncrypt E c rest) = rest"
      using "1.IH" [OF False, of c] "1.prems"(1) lc lrest
      by (simp add: c_def blk_def rest_def)
    have src: "src = blk @ rest" by (simp add: blk_def rest_def)
    have l: "length (CBCEncrypt E iv src) = length src"
      using IH lc lblk by (simp add: enc) (simp add: src)
    have "CBCDecrypt D iv (c @ CBCEncrypt E c rest)
            = xor_bytes (D c) iv @ CBCDecrypt D c (CBCEncrypt E c rest)"
      using lc by (subst CBCDecrypt.simps) (auto simp: Let_def)
    also have "\<dots> = blk @ rest"
      using IH lblk "1.prems"(2) by (simp add: dc xor_bytes_cancel)
    finally have "CBCDecrypt D iv (CBCEncrypt E iv src) = src"
      by (simp add: enc src [symmetric])
    with l show ?thesis by simp
  qed
qed

lemma fresh_envelope_in_window:
  fixes now ts :: int64
  assumes "0 \<le>s ts" "0 \<le>s now" "\<bar>sint now - sint ts\<bar> \<le> 30"
  shows "\<not> timestamp_out_of_range now ts"
proof -
  have b: "sint now < 2 ^ 63" "sint ts < 2 ^ 63"
    using sint_lt [of now] sint_lt [of ts] by simp_all
  from assms have a: "0 \<le> sint ts" "0 \<le> sint now"
    by (simp_all add: word_sle_eq)
  have d1: "sint (now - ts) = sint now - sint ts"
    using a b by (simp add: sint_word_ariths signed_take_bit_int_eq_self)
  have d2: "sint (ts - 30) = sint ts - 30"
    using a b by (simp add: sint_word_ariths signed_take_bit_int_eq_self)
  from assms(3) have "\<not> 30 < sint now - sint ts" "\<not> sint now < sint ts - 30"
    by arith+
  then show ?thesis
    by (simp add: timestamp_out_of_range_def MaxTimeDifference_def word_sless_alt d1 d2)
qed

lemma AESEncrypt_admitted:
  assumes "ops <s maxConcurrentOps" "NewCipher_ok key" "length iv = BlockSize"
  shows "fst (AESEncrypt P key iv plaintext ops)
           = Inr (CBCEncrypt (aes_encrypt_block P key) iv (PKCS7Pad plaintext))"
  using assms by (simp add: AESEncrypt_def ConcurrencyCheck_admits)

lemma AESDecrypt_Encrypt:
  assumes "block_cipher_ok P key" "NewCipher_ok key" "length iv = BlockSize"
    "ops <s maxConcurrentOps"
  shows "fst (AESDecrypt P key iv
                (CBCEncrypt (aes_encrypt_block P key) iv (PKCS7Pad plaintext)) ops)
           = Inr plaintext"
proof -
  from assms(1) have E: "\<forall>b. length b = BlockSize \<longrightarrow>
      length (aes_encrypt_block P key b) = BlockSize
      \<and> aes_decrypt_block P key (aes_encrypt_block P key b) = b"
    by (simp add: block_cipher_ok_def)
  note rt = CBC_roundtrip [OF E assms(3) PKCS7Pad_length, of plaintext]
  from rt have l: "length (CBCEncrypt (aes_encrypt_block P key) iv (PKCS7Pad plaintext)) mod 16 = 0"
    by (simp add: PKCS7Pad_length)
  show ?thesis
    using assms(2,3) l rt
    by (simp add: AESDecrypt_def ConcurrencyCheck_admits [OF assms(4)] PKCS7Unpad_Pad)
qed

lemma SignECDSA_verifies:
  assumes "ecdsa_pair_ok P priv pubBytes"
  shows "\<exists>b. SignECDSA P priv data rnd = Inr b \<and> VerifyECDSA P pubBytes data b = Inr True"
proof -
  from assms obtain sg b where
    "ecdsa_Sign P rnd priv (array_bytes 64 (sha512_Sum512 P data)) = Some sg"
    "json_Marshal P sg = Some b" "json_Unmarshal P b = Some (Some (fst sg), Some (snd sg))"
    "ecdsa_Verify P (ecX priv, ecY priv) (array_bytes 64 (sha512_Sum512 P data))
       (Some (fst sg), Some (snd sg)) = Some True"
    unfolding ecdsa_pair_ok_def by blast
  moreover from assms have
    "x509_ParsePKIXPublicKey P pubBytes = Some (ECDSAPublicKey (ecX priv) (ecY priv))"
    by (simp add: ecdsa_pair_ok_def)
  ultimately show ?thesis
    by (simp add: SignECDSA_def VerifyECDSA_def)
qed

lemma SignRSA_verifies:
  assumes "rsa_pair_ok P priv pubBytes"
  shows "\<exists>b. SignRSA P priv data = Inr b \<and> VerifyRSA P pubBytes data b"
proof -
  from assms obtain sg where
    "rsa_SignPKCS1v15 P priv (array_bytes 32 (sha256_Sum256 P data)) = Some sg"
    "rsa_VerifyPKCS1v15 P (rsaN priv, rsaE priv) (array_bytes 32 (sha256_Sum256 P data)) sg"
    unfolding rsa_pair_ok_def by blast
  moreover from assms have
    "x509_ParsePKIXPublicKey P pubBytes = Some (RSAPublicKey (rsaN priv) (rsaE priv))"
    by (simp add: rsa_pair_ok_def)
  ultimately show ?thesis
    by (simp add: SignRSA_def VerifyRSA_def)
qed

text \<open>
  C1, as amended. For every plaintext, every secret of at least 64 bytes, a block cipher
  that decrypts what it encrypts and valid ECDSA and RSA key pairs with their matching
  public keys: when the concurrency guard admits the sender's encryption and the
  receiver's decryption, the nonce is not yet in the receiver's tracker, and the
  receiver's clock is within 30 s of the creation time (both after the epoch), then
  \<^verbatim>\<open>CreateSecureMessage\<close> builds an envelope and verifying it returns the plaintext.
\<close>

theorem roundtrip_when_admitted:
  assumes secret: "64 \<le> length sharedSecret"
    and iv: "length iv = BlockSize"
    and cipher: "block_cipher_ok P (take AESKeySize sharedSecret)"
    and ec: "ecdsa_pair_ok P ecdsaPriv ecdhPub"
    and rsa: "rsa_pair_ok P rsaPriv rsaPubKey"
    and sender: "ops <s maxConcurrentOps"
    and receiver: "concurrentOps s <s maxConcurrentOps"
    and first: "nonce |\<notin>| fmdom (nonces (tracker s))"
    and window: "0 \<le>s timestamp" "0 \<le>s now" "\<bar>sint now - sint timestamp\<bar> \<le> 30"
  shows "\<exists>msg. fst (CreateSecureMessage P plaintext sharedSecret ecdsaPriv ecdhPub rsaPriv
                      iv nonce rnd timestamp ops) = Inr msg
           \<and> fst (VerifyAndDecryptMessage P now tsweep tins msg sharedSecret rsaPubKey s)
                = Inr plaintext"
proof -
  define key where "key = take AESKeySize sharedSecret"
  define ct where "ct = CBCEncrypt (aes_encrypt_block P key) iv (PKCS7Pad plaintext)"
  from secret have long: "\<not> length sharedSecret < AESKeySize"
    by (simp add: AESKeySize_def)
  from secret have nk: "NewCipher_ok key"
    by (simp add: key_def NewCipher_ok_def AESKeySize_def)
  have "fst (AESEncrypt P key iv plaintext ops) = Inr ct"
    unfolding ct_def by (rule AESEncrypt_admitted [OF sender nk iv])
  then obtain ops' where enc: "AESEncrypt P key iv plaintext ops = (Inr ct, ops')"
    by (cases "AESEncrypt P key iv plaintext ops") simp
  obtain es where es: "SignECDSA P ecdsaPriv ct rnd = Inr es"
    "VerifyECDSA P ecdhPub ct es = Inr True"
    using SignECDSA_verifies [OF ec] by blast
  obtain rs where rs: "SignRSA P rsaPriv ct = Inr rs" "VerifyRSA P rsaPubKey ct rs"
    using SignRSA_verifies [OF rsa] by blast
  define msg where "msg = \<lparr>Timestamp = timestamp, Nonce = nonce, IV = iv, Cipher = ct,
     HMAC = GenerateHMAC P (drop AESKeySize sharedSecret) ct, Signature = es,
     PubKey = ecdhPub, RSASig = rs\<rparr>"
  have create: "fst (CreateSecureMessage P plaintext sharedSecret ecdsaPriv ecdhPub rsaPriv
                      iv nonce rnd timestamp ops) = Inr msg"
    using long enc es(1) rs(1)
    by (simp add: CreateSecureMessage_def key_def [symmetric] msg_def Let_def)
  have fresh: "\<not> timestamp_out_of_range now (Timestamp msg)"
    using fresh_envelope_in_window [OF window] by (simp add: msg_def)
  have add: "AddNonce (tracker s) (Nonce msg) tsweep tins
               = (Inr (), snd (AddNonce (tracker s) (Nonce msg) tsweep tins))"
    using first by (simp add: AddNonce_def Let_def msg_def)
  have mac: "VerifyHMAC P (drop AESKeySize sharedSecret) (Cipher msg) (HMAC msg)"
    by (simp add: VerifyHMAC_def msg_def)
  have "fst (AESDecrypt P key (IV msg) (Cipher msg) (concurrentOps s)) = Inr plaintext"
    using AESDecrypt_Encrypt [OF cipher [folded key_def] nk iv receiver]
    by (simp add: msg_def ct_def)
  then obtain ops2 where dec:
    "AESDecrypt P key (IV msg) (Cipher msg) (concurrentOps s) = (Inr plaintext, ops2)"
    by (cases "AESDecrypt P key (IV msg) (Cipher msg) (concurrentOps s)") simp
  have "fst (VerifyAndDecryptMessage P now tsweep tins msg sharedSecret rsaPubKey s)
          = Inr plaintext"
    using fresh long mac es(2) rs(2) dec first
    by (simp add: VerifyAndDecryptMessage_def Let_def record_check_def key_def [symmetric]
        AddNonce_def msg_def)
  with create show ?thesis by blast
qed

lemma toy_block_cipher_ok: "block_cipher_ok toy_prims key"
  by (simp add: block_cipher_ok_def toy_prims_def)

lemma toy_ecdsa_pair_ok: "ecdsa_pair_ok toy_prims toy_ecdsa_key [1, 7, 0]"
  by (simp add: ecdsa_pair_ok_def toy_prims_def toy_ecdsa_key_def toy_parse_def
      toy_json_Marshal_def toy_json_Unmarshal_def toy_ecdsa_Verify_def)

lemma toy_rsa_pair_ok: "rsa_pair_ok toy_prims toy_rsa_key [2, 33, 3]"
  by (simp add: rsa_pair_ok_def toy_prims_def toy_rsa_key_def toy_parse_def)

lemma toy_create:
  "CreateSecureMessage toy_prims [1, 2, 3] toy_secret toy_ecdsa_key [1, 7, 0] toy_rsa_key
     (replicate 16 9) (replicate 16 5) [] 1000 0 = (Inr toy_envelope, 0)"
  by code_simp

theorem roundtrip_when_admitted_witness:
  "fst (VerifyAndDecryptMessage toy_prims 1010 0 0 toy_envelope toy_secret [2, 33, 3]
          idle_receiver) = Inr [1, 2, 3]"
proof -
  have 1: "64 \<le> length toy_secret" by (simp add: toy_secret_def)
  have 2: "length (replicate 16 (9 :: byte)) = BlockSize" by simp
  have 3: "(0 :: int64) <s maxConcurrentOps"
    by (simp add: maxConcurrentOps_def word_sless_alt)
  have 4: "concurrentOps idle_receiver <s maxConcurrentOps"
    by (simp add: maxConcurrentOps_def idle_receiver_def word_sless_alt)
  have 5: "replicate 16 (5 :: byte) |\<notin>| fmdom (nonces (tracker idle_receiver))"
    by (simp add: idle_receiver_def globalNonceTracker_def NewNonceTracker_def)
  have 6: "(0 :: int64) \<le>s 1000" "(0 :: int64) \<le>s 1010"
    "\<bar>sint (1010 :: int64) - sint (1000 :: int64)\<bar> \<le> 30"
    by (simp_all add: word_sle_eq)
  from roundtrip_when_admitted [OF 1 2 toy_block_cipher_ok toy_ecdsa_pair_ok toy_rsa_pair_ok
      3 4 5 6, of "[1, 2, 3]" "[]" 0 0]
  show ?thesis by (simp add: toy_create)
qed

text \<open>
  C1 as stated fails: the envelope built for \<open>[1, 2, 3]\<close> is rejected, at its first
  verification and inside the freshness window, when the receiver's concurrency counter
  is at its cap.
\<close>

theorem verification_denied_at_cap:
  "fst (CreateSecureMessage toy_prims [1, 2, 3] toy_secret toy_ecdsa_key [1, 7, 0] toy_rsa_key
          (replicate 16 9) (replicate 16 5) [] 1000 0) = Inr toy_envelope
   \<and> fst (VerifyAndDecryptMessage toy_prims 1010 0 0 toy_envelope toy_secret [2, 33, 3]
          (idle_receiver\<lparr>concurrentOps := 100\<rparr>)) = Inl (ErrDecrypt ErrConcurrency)"
  by code_simp


section \<open>Key agreement: symmetry\<close>

lemma ComputeSharedSecret_generated:
  assumes "x509_roundtrip P (GenerateECDHKeys P dB)"
    and "curve_IsOnCurve P (curve_ScalarBaseMult P (big_Bytes dB))"
  shows "ComputeSharedSecret P (fst (GenerateECDHKeys P dA)) (snd (GenerateECDHKeys P dB))
           = Inr (array_bytes 32 (sha256_Sum256 P (big_Bytes
               (fst (curve_ScalarMult P (curve_ScalarBaseMult P (big_Bytes dB)) (big_Bytes dA))))))"
  using assms
  by (auto simp: ComputeSharedSecret_def x509_roundtrip_def GenerateECDHKeys_def
      split: prod.splits)

lemma big_Exp_pos:
  "0 < y \<Longrightarrow> m \<noteq> 0 \<Longrightarrow> big_Exp negexp x y m = Some (x ^ nat y mod \<bar>m\<bar>)"
  by (simp add: big_Exp_def)

lemma DH_commute:
  fixes g :: int
  shows "(g ^ b mod m) ^ a mod m = (g ^ a mod m) ^ b mod m"
proof -
  have "(g ^ b mod m) ^ a mod m = g ^ (b * a) mod m"
    by (simp add: power_mod power_mult)
  also have "\<dots> = g ^ (a * b) mod m" by (simp add: mult.commute)
  also have "\<dots> = (g ^ a mod m) ^ b mod m"
    by (simp add: power_mod power_mult)
  finally show ?thesis .
qed

text \<open>
  C9. Two key pairs from \<^verbatim>\<open>GenerateECDHKeys\<close>, over a curve whose scalar multiplications
  commute, give the same secret with the roles swapped:
  \<^verbatim>\<open>ComputeSharedSecret(privA, pubB) = ComputeSharedSecret(privB, pubA)\<close>, and it is
  returned without a panic. Two key pairs from \<^verbatim>\<open>GenerateDHKeyPair\<close> over the same group
  parameters give the same \<^verbatim>\<open>ComputeDHSharedSecret\<close> with the roles swapped.
\<close>

theorem key_agreement_symmetric:
  assumes curve: "curve_scalars_commute P"
    and keysA: "x509_roundtrip P (GenerateECDHKeys P dA)"
    and keysB: "x509_roundtrip P (GenerateECDHKeys P dB)"
    and group: "1 < dhP params"
    and draws: "0 \<le> rA" "0 \<le> rB"
  shows "ComputeSharedSecret P (fst (GenerateECDHKeys P dA)) (snd (GenerateECDHKeys P dB))
           = ComputeSharedSecret P (fst (GenerateECDHKeys P dB)) (snd (GenerateECDHKeys P dA))
     \<and> \<not> isl (ComputeSharedSecret P (fst (GenerateECDHKeys P dA)) (snd (GenerateECDHKeys P dB)))
     \<and> (\<exists>A B. GenerateDHKeyPair negexp params (Some rA) = Inr A
            \<and> GenerateDHKeyPair negexp params (Some rB) = Inr B
            \<and> ComputeDHSharedSecret P negexp (Private A) (Public B) params
                = ComputeDHSharedSecret P negexp (Private B) (Public A) params
            \<and> \<not> isl (ComputeDHSharedSecret P negexp (Private A) (Public B) params))"
proof -
  from curve have onA: "curve_IsOnCurve P (curve_ScalarBaseMult P (big_Bytes dA))"
    and onB: "curve_IsOnCurve P (curve_ScalarBaseMult P (big_Bytes dB))"
    by (simp_all add: curve_scalars_commute_def)
  have ec: "ComputeSharedSecret P (fst (GenerateECDHKeys P dA)) (snd (GenerateECDHKeys P dB))
           = ComputeSharedSecret P (fst (GenerateECDHKeys P dB)) (snd (GenerateECDHKeys P dA))"
    using curve
    by (simp add: ComputeSharedSecret_generated [OF keysA onA]
        ComputeSharedSecret_generated [OF keysB onB] curve_scalars_commute_def)
  have ec2: "\<not> isl (ComputeSharedSecret P (fst (GenerateECDHKeys P dA)) (snd (GenerateECDHKeys P dB)))"
    by (simp add: ComputeSharedSecret_generated [OF keysB onB])
  define p where "p = dhP params"
  define g where "g = dhG params"
  define A where "A = \<lparr>Private = rA + 1, Public = g ^ nat (rA + 1) mod \<bar>p\<bar>, Params = params\<rparr>"
  define B where "B = \<lparr>Private = rB + 1, Public = g ^ nat (rB + 1) mod \<bar>p\<bar>, Params = params\<rparr>"
  from group have p0: "p \<noteq> 0" "\<not> p - 1 \<le> 0" by (simp_all add: p_def)
  have gA: "GenerateDHKeyPair negexp params (Some rA) = Inr A"
    using p0 draws(1)
    by (simp add: GenerateDHKeyPair_def Let_def big_Exp_pos A_def p_def [symmetric] g_def)
  have gB: "GenerateDHKeyPair negexp params (Some rB) = Inr B"
    using p0 draws(2)
    by (simp add: GenerateDHKeyPair_def Let_def big_Exp_pos B_def p_def [symmetric] g_def)
  have sAB: "ComputeDHSharedSecret P negexp (Private A) (Public B) params
      = Inr (array_bytes 32 (sha256_Sum256 P (big_Bytes
          ((g ^ nat (rB + 1) mod \<bar>p\<bar>) ^ nat (rA + 1) mod \<bar>p\<bar>))))"
    using p0 draws(1)
    by (simp add: ComputeDHSharedSecret_def big_Exp_pos A_def B_def p_def [symmetric])
  have sBA: "ComputeDHSharedSecret P negexp (Private B) (Public A) params
      = Inr (array_bytes 32 (sha256_Sum256 P (big_Bytes
          ((g ^ nat (rA + 1) mod \<bar>p\<bar>) ^ nat (rB + 1) mod \<bar>p\<bar>))))"
    using p0 draws(2)
    by (simp add: ComputeDHSharedSecret_def big_Exp_pos A_def B_def p_def [symmetric])
  have "ComputeDHSharedSecret P negexp (Private A) (Public B) params
          = ComputeDHSharedSecret P negexp (Private B) (Public A) params"
    unfolding sAB sBA by (simp only: DH_commute)
  moreover have "\<not> isl (ComputeDHSharedSecret P negexp (Private A) (Public B) params)"
    by (simp add: sAB)
  ultimately show ?thesis using ec ec2 gA gB by blast
qed


theorem key_agreement_symmetric_witness:
  "ComputeSharedSecret toy_prims (fst (GenerateECDHKeys toy_prims 3))
       (snd (GenerateECDHKeys toy_prims 5)) = Inr (replicate 31 0 @ [15])
   \<and> ComputeSharedSecret toy_prims (fst (GenerateECDHKeys toy_prims 5))
       (snd (GenerateECDHKeys toy_prims 3)) = Inr (replicate 31 0 @ [15])
   \<and> ComputeDHSharedSecret toy_prims (\<lambda>x y m. None) 4 8 \<lparr>dhP = 23, dhG = 5\<rparr>
       = ComputeDHSharedSecret toy_prims (\<lambda>x y m. None) 6 4 \<lparr>dhP = 23, dhG = 5\<rparr>"
proof -
  have 1: "curve_scalars_commute toy_prims"
    by (simp add: curve_scalars_commute_def toy_prims_def mult.commute)
  have 2: "x509_roundtrip toy_prims (GenerateECDHKeys toy_prims 3)"
    by code_simp
  have 3: "x509_roundtrip toy_prims (GenerateECDHKeys toy_prims 5)"
    by code_simp
  have 4: "1 < dhP \<lparr>dhP = 23, dhG = 5\<rparr>" "(0 :: int) \<le> 3" "(0 :: int) \<le> 5"
    by simp_all
  note sym = key_agreement_symmetric [OF 1 2 3 4, where negexp = "\<lambda>x y m. None"]
  have a: "ComputeSharedSecret toy_prims (fst (GenerateECDHKeys toy_prims 3))
       (snd (GenerateECDHKeys toy_prims 5)) = Inr (replicate 31 0 @ [15])"
    by code_simp
  have gA: "GenerateDHKeyPair (\<lambda>x y m. None) \<lparr>dhP = 23, dhG = 5\<rparr> (Some 3)
              = Inr \<lparr>Private = 4, Public = 4, Params = \<lparr>dhP = 23, dhG = 5\<rparr>\<rparr>"
    by code_simp
  have gB: "GenerateDHKeyPair (\<lambda>x y m. None) \<lparr>dhP = 23, dhG = 5\<rparr> (Some 5)
              = Inr \<lparr>Private = 6, Public = 8, Params = \<lparr>dhP = 23, dhG = 5\<rparr>\<rparr>"
    by code_simp
  from sym a gA gB show ?thesis by auto
qed

end
